theory Spec2Isabelle
  imports Complex_Main "HOL-Library.Word" "HOL-Library.Log_Nat"
begin

section \<open>Data\<close>

text \<open>
  An \<^verbatim>\<open>ArrayBuffer\<close> is a list of bytes, an \<^verbatim>\<open>Int16Array\<close> a list of 16-bit words
  (read as two's complement by \<open>sint\<close>). What a JavaScript \<^verbatim>\<open>throw\<close> carries is a value
  of \<open>js_error\<close>: the \<^verbatim>\<open>RangeError\<close> of a \<^verbatim>\<open>DataView\<close>, or whatever a library call
  throws. A function that may throw returns \<open>js_error + 'a\<close>.
\<close>

type_synonym byte = "8 word"
type_synonym int16 = "16 word"

datatype js_error = RangeError | LibraryError

subsection \<open>Numbers\<close>

text \<open>
  The filter computes on JavaScript Numbers (IEEE doubles). The operations it uses are
  collected in a record, so that every function below is written once, for any
  interpretation of them: \<open>n_lit\<close> reads an integer literal or an integer sample as a
  Number, \<open>n_round\<close> is \<^verbatim>\<open>Math.round\<close>, \<open>n_toInt16\<close> is the conversion a store
  into an \<^verbatim>\<open>Int16Array\<close> applies.
\<close>

record 'n number_ops =
  n_lit :: "int \<Rightarrow> 'n"
  n_add :: "'n \<Rightarrow> 'n \<Rightarrow> 'n"
  n_sub :: "'n \<Rightarrow> 'n \<Rightarrow> 'n"
  n_mul :: "'n \<Rightarrow> 'n \<Rightarrow> 'n"
  n_div :: "'n \<Rightarrow> 'n \<Rightarrow> 'n"
  n_pi :: "'n"
  n_round :: "'n \<Rightarrow> 'n"
  n_toInt16 :: "'n \<Rightarrow> int16"

subsection \<open>IEEE doubles\<close>

text \<open>
  The interpretation the program runs on. A Number is an IEEE 754 double: a finite
  value, which is a rational number (\<open>Fin 0\<close> is the zero with the positive sign,
  \<open>NegZero\<close> the one with the negative sign), an infinity or NaN.
\<close>

datatype number = Fin rat | NegZero | PosInf | NegInf | NaN

fun isNaN :: "number \<Rightarrow> bool" where
  "isNaN NaN = True"
| "isNaN x = False"

fun isInf :: "number \<Rightarrow> bool" where
  "isInf PosInf = True"
| "isInf NegInf = True"
| "isInf x = False"

fun isZero :: "number \<Rightarrow> bool" where
  "isZero (Fin x) = (x = 0)"
| "isZero NegZero = True"
| "isZero x = False"

fun signBit :: "number \<Rightarrow> bool" where
  "signBit (Fin x) = (x < 0)"
| "signBit NegZero = True"
| "signBit NegInf = True"
| "signBit x = False"

fun valueOf :: "number \<Rightarrow> rat" where
  "valueOf (Fin x) = x"
| "valueOf x = 0"

definition signedZero :: "bool \<Rightarrow> number" where
  "signedZero negative = (if negative then NegZero else Fin 0)"

definition signedInf :: "bool \<Rightarrow> number" where
  "signedInf negative = (if negative then NegInf else PosInf)"

text \<open>
  Rounding to the nearest double, a tie to the even significand. \<open>ilog2 a\<close> is the
  exponent of the binade of a positive \<open>a\<close>, found from the bit lengths of its
  numerator and denominator. A double has 53 significant bits, so the spacing of the
  doubles in the binade of exponent \<open>e\<close> is \<open>2 powi (e - 52)\<close>; below the exponent
  \<open>-1022\<close> the spacing stays that of the subnormal numbers. A result that rounds to
  nothing is a signed zero; one that reaches the binade of exponent 1024, so a
  magnitude of \<open>2 powi 1024\<close> or more, is an infinity.
\<close>

definition ilog2 :: "rat \<Rightarrow> int" where
  "ilog2 a =
     (case quotient_of a of
        (p, q) \<Rightarrow> (let d = bitlen p - bitlen q in if 2 powi d \<le> a then d else d - 1))"

definition roundHalfEven :: "rat \<Rightarrow> int" where
  "roundHalfEven y =
     (let r = \<lfloor>y\<rfloor>; f = y - of_int r
      in if f < 1 / 2 then r else if 1 / 2 < f then r + 1 else if even r then r else r + 1)"

definition roundToDouble :: "rat \<Rightarrow> number" where
  "roundToDouble x =
     (if x = 0 then Fin 0
      else
        (let a = \<bar>x\<bar>;
             e = max (ilog2 a) (- 1022);
             ulp = 2 powi (e - 52);
             m = roundHalfEven (a / ulp);
             v = of_int m * ulp
         in if m = 0 then signedZero (x < 0)
            else if 1024 \<le> ilog2 v then signedInf (x < 0)
            else Fin (if x < 0 then - v else v)))"

text \<open>
  The four operations: the special cases of IEEE 754 first (NaN, the infinities, the
  signs of zero, division by zero), then the exact result, rounded.
\<close>

definition double_add :: "number \<Rightarrow> number \<Rightarrow> number" where
  "double_add a b =
     (if isNaN a \<or> isNaN b then NaN
      else if isInf a \<and> isInf b then (if signBit a = signBit b then a else NaN)
      else if isInf a then a
      else if isInf b then b
      else if isZero a \<and> isZero b then signedZero (signBit a \<and> signBit b)
      else roundToDouble (valueOf a + valueOf b))"

fun double_neg :: "number \<Rightarrow> number" where
  "double_neg (Fin x) = (if x = 0 then NegZero else Fin (- x))"
| "double_neg NegZero = Fin 0"
| "double_neg PosInf = NegInf"
| "double_neg NegInf = PosInf"
| "double_neg NaN = NaN"

definition double_sub :: "number \<Rightarrow> number \<Rightarrow> number" where
  "double_sub a b = double_add a (double_neg b)"

definition double_mul :: "number \<Rightarrow> number \<Rightarrow> number" where
  "double_mul a b =
     (if isNaN a \<or> isNaN b then NaN
      else if (isInf a \<and> isZero b) \<or> (isZero a \<and> isInf b) then NaN
      else if isInf a \<or> isInf b then signedInf (signBit a \<noteq> signBit b)
      else if isZero a \<or> isZero b then signedZero (signBit a \<noteq> signBit b)
      else roundToDouble (valueOf a * valueOf b))"

definition double_div :: "number \<Rightarrow> number \<Rightarrow> number" where
  "double_div a b =
     (if isNaN a \<or> isNaN b then NaN
      else if (isInf a \<and> isInf b) \<or> (isZero a \<and> isZero b) then NaN
      else if isInf a \<or> isZero b then signedInf (signBit a \<noteq> signBit b)
      else if isInf b \<or> isZero a then signedZero (signBit a \<noteq> signBit b)
      else roundToDouble (valueOf a / valueOf b))"

text \<open>
  \<^verbatim>\<open>Math.round\<close>: the nearest integer, a tie towards plus infinity; a value in
  \<open>[-1/2, 0)\<close> gives the negative zero; NaN and the infinities are returned as they
  are.
\<close>

fun math_round :: "number \<Rightarrow> number" where
  "math_round (Fin x) =
     (if - (1 / 2) \<le> x \<and> x < 0 then NegZero else Fin (of_int \<lfloor>x + 1 / 2\<rfloor>))"
| "math_round x = x"

text \<open>
  The conversion of a store into an \<^verbatim>\<open>Int16Array\<close> (\<^verbatim>\<open>ToInt16\<close>): NaN, the zeros and
  the infinities give 0; a finite value is truncated towards zero and reduced modulo
  \<open>2 ^ 16\<close>. It wraps around, it does not saturate.
\<close>

fun toInt16 :: "number \<Rightarrow> int16" where
  "toInt16 (Fin x) = word_of_int (if 0 \<le> x then \<lfloor>x\<rfloor> else \<lceil>x\<rceil>)"
| "toInt16 x = 0"

text \<open>\<^verbatim>\<open>Math.PI\<close> is the double nearest to the number pi.\<close>

definition math_pi :: number where
  "math_pi = Fin (884279719003555 / 281474976710656)"

definition double_ops :: "number number_ops" where
  "double_ops =
     \<lparr> n_lit = (\<lambda>k. roundToDouble (of_int k)), n_add = double_add, n_sub = double_sub,
       n_mul = double_mul, n_div = double_div, n_pi = math_pi, n_round = math_round,
       n_toInt16 = toInt16 \<rparr>"

section \<open>PCM decoder\<close>

text \<open>
  \<^verbatim>\<open>DataView.getInt16(byteOffset, true)\<close>: a \<^verbatim>\<open>RangeError\<close> when the two bytes are
  not both inside the view, else the little-endian value (low byte first).
\<close>

definition getInt16 :: "byte list \<Rightarrow> nat \<Rightarrow> js_error + int16" where
  "getInt16 dataView byteOffset =
     (if length dataView < byteOffset + 2 then Inl RangeError
      else Inr (word_cat (dataView ! (byteOffset + 1)) (dataView ! byteOffset)))"

text \<open>
  The loop of \<^verbatim>\<open>convertPCMToInt16\<close>. \<^verbatim>\<open>totalSamples\<close> is \<^verbatim>\<open>byteLength / 2\<close>, a
  Number that is not an integer when the length is odd, so \<^verbatim>\<open>i < totalSamples\<close> is
  \<open>2 * i < length arrayBuffer\<close>. A store beyond the end of a typed array is ignored, as
  \<open>xs[i := v]\<close> is.
\<close>

function convertPCMToInt16_loop :: "byte list \<Rightarrow> nat \<Rightarrow> int16 list \<Rightarrow> js_error + int16 list" where
  "convertPCMToInt16_loop arrayBuffer i int16Array =
     (if 2 * i < length arrayBuffer then
        (case getInt16 arrayBuffer (i * 2) of
           Inl e \<Rightarrow> Inl e
         | Inr v \<Rightarrow> convertPCMToInt16_loop arrayBuffer (Suc i) (int16Array[i := v]))
      else Inr int16Array)"
  by pat_completeness auto
termination
  by (relation "measure (\<lambda>(arrayBuffer, i, int16Array). length arrayBuffer - 2 * i)") auto

declare convertPCMToInt16_loop.simps [simp del]

text \<open>\<^verbatim>\<open>new Int16Array(totalSamples)\<close> has \<open>length arrayBuffer div 2\<close> elements, all zero.\<close>

definition convertPCMToInt16 :: "byte list \<Rightarrow> js_error + int16 list" where
  "convertPCMToInt16 arrayBuffer =
     convertPCMToInt16_loop arrayBuffer 0 (replicate (length arrayBuffer div 2) 0)"

text \<open>
  The inverse the specification speaks of (it is not a function of the program): every
  sample written back as two bytes, low byte first.
\<close>

definition encodeInt16LE :: "int16 list \<Rightarrow> byte list" where
  "encodeInt16LE samples = concat (map (\<lambda>s. [ucast s, ucast (drop_bit 8 s)]) samples)"

section \<open>Low-pass filter\<close>

text \<open>
  The loop of \<^verbatim>\<open>applyLowPassFilter\<close> over the samples in order: \<open>previous\<close> is the
  unrounded output of the sample before, the element stored is the rounded one.
\<close>

fun applyLowPassFilter_loop :: "'n number_ops \<Rightarrow> 'n \<Rightarrow> int16 list \<Rightarrow> 'n \<Rightarrow> int16 list \<times> 'n" where
  "applyLowPassFilter_loop N alpha [] previous = ([], previous)"
| "applyLowPassFilter_loop N alpha (x # data) previous =
     (let filteredSample =
            n_add N (n_mul N alpha (n_lit N (sint x)))
                    (n_mul N (n_sub N (n_lit N 1) alpha) previous);
          (filtered, lastValue) = applyLowPassFilter_loop N alpha data filteredSample
      in (n_toInt16 N (n_round N filteredSample) # filtered, lastValue))"

definition lowPassAlpha :: "'n number_ops \<Rightarrow> 'n \<Rightarrow> 'n \<Rightarrow> 'n" where
  "lowPassAlpha N sampleRate cutoff =
     (let dt = n_div N (n_lit N 1) sampleRate;
          RC = n_div N (n_lit N 1) (n_mul N (n_mul N (n_lit N 2) (n_pi N)) cutoff)
      in n_div N dt (n_add N RC dt))"

definition applyLowPassFilter :: "'n number_ops \<Rightarrow> int16 list \<Rightarrow> 'n \<Rightarrow> 'n \<Rightarrow> 'n \<Rightarrow> int16 list \<times> 'n" where
  "applyLowPassFilter N data sampleRate cutoff prevValue =
     applyLowPassFilter_loop N (lowPassAlpha N sampleRate cutoff) data prevValue"

section \<open>MP3 encoder adapter\<close>

text \<open>
  The encoder is the library \<^verbatim>\<open>lamejs\<close>, which is not part of the repository: it is a
  parameter of the model. \<open>enc_new\<close> is the state of a fresh \<^verbatim>\<open>Mp3Encoder\<close>,
  \<open>enc_encodeBuffer\<close> takes one block and returns the new state and the bytes it emits,
  \<open>enc_flush\<close> returns the trailing bytes; either call may throw.
\<close>

record 'e mp3_encoder =
  enc_new :: "'e"
  enc_encodeBuffer :: "'e \<Rightarrow> int16 list \<Rightarrow> js_error + 'e \<times> byte list"
  enc_flush :: "'e \<Rightarrow> js_error + byte list"

text \<open>\<^verbatim>\<open>Buffer.toString('base64')\<close>: three bytes become four characters, with padding.\<close>

definition base64_char :: "byte \<Rightarrow> char" where
  "base64_char b =
     (''ABCDEFGHIJKLMNOPQRSTUVWXYZabcdefghijklmnopqrstuvwxyz0123456789+/'') ! unat (and b 63)"

fun base64 :: "byte list \<Rightarrow> string" where
  "base64 [] = []"
| "base64 [a] =
     [base64_char (drop_bit 2 a), base64_char (push_bit 4 a), CHR ''='', CHR ''='']"
| "base64 [a, b] =
     [base64_char (drop_bit 2 a), base64_char (or (push_bit 4 a) (drop_bit 4 b)),
      base64_char (push_bit 2 b), CHR ''='']"
| "base64 (a # b # c # rest) =
     [base64_char (drop_bit 2 a), base64_char (or (push_bit 4 a) (drop_bit 4 b)),
      base64_char (or (push_bit 2 b) (drop_bit 6 c)), base64_char c] @ base64 rest"

text \<open>
  The block loop of \<^verbatim>\<open>convertChunksToMp3\<close>: \<^verbatim>\<open>pcmData.subarray(i, i + blockSize)\<close> is
  \<open>take 1152 (drop i pcmData)\<close>; a fragment is kept when it is not empty.
\<close>

function encodeBlocks ::
  "'e mp3_encoder \<Rightarrow> int16 list \<Rightarrow> nat \<Rightarrow> 'e \<Rightarrow> byte list list \<Rightarrow> js_error + 'e \<times> byte list list" where
  "encodeBlocks E pcmData i mp3Encoder mp3Data =
     (if i < length pcmData then
        (case enc_encodeBuffer E mp3Encoder (take 1152 (drop i pcmData)) of
           Inl e \<Rightarrow> Inl e
         | Inr (mp3Encoder', mp3buf) \<Rightarrow>
             encodeBlocks E pcmData (i + 1152) mp3Encoder'
               (if 0 < length mp3buf then mp3Data @ [mp3buf] else mp3Data))
      else Inr (mp3Encoder, mp3Data))"
  by pat_completeness auto
termination
  by (relation "measure (\<lambda>(E, pcmData, i, mp3Encoder, mp3Data). length pcmData - i)") auto

declare encodeBlocks.simps [simp del]

text \<open>
  \<^verbatim>\<open>convertChunksToMp3\<close> has no \<^verbatim>\<open>await\<close> in its body: the call runs to its end. The
  result is \<open>Inr None\<close> for \<^verbatim>\<open>null\<close>, \<open>Inr (Some text)\<close> for the base64 text, \<open>Inl e\<close>
  when the encoder throws (the promise is rejected).
\<close>

definition convertChunksToMp3 :: "'e mp3_encoder \<Rightarrow> int16 list list \<Rightarrow> js_error + string option" where
  "convertChunksToMp3 E pcmChunks =
     (if length pcmChunks = 0 then Inr None
      else
        (case encodeBlocks E (concat pcmChunks) 0 (enc_new E) [] of
           Inl e \<Rightarrow> Inl e
         | Inr (mp3Encoder, mp3Data) \<Rightarrow>
             (case enc_flush E mp3Encoder of
                Inl e \<Rightarrow> Inl e
              | Inr mp3Final \<Rightarrow>
                  Inr (Some (base64 (concat
                    (if 0 < length mp3Final then mp3Data @ [mp3Final] else mp3Data)))))))"

text \<open>
  Modelled from the spec: the encoder library \<^verbatim>\<open>lamejs\<close> is not part of the repository.
  The specification describes a block-oriented encoder that "may buffer internally and
  emit 0 bytes for some frames" and asks to "explicitly flush the encoder to emit
  trailing bytes". So: neither call throws, a block may give no byte, and the flush
  gives at least one.
\<close>

definition encoder_contract :: "'e mp3_encoder \<Rightarrow> bool" where
  "encoder_contract E =
     ((\<forall>mp3Encoder block. \<exists>mp3Encoder' mp3buf.
         enc_encodeBuffer E mp3Encoder block = Inr (mp3Encoder', mp3buf)) \<and>
      (\<forall>mp3Encoder. \<exists>mp3Final. enc_flush E mp3Encoder = Inr mp3Final \<and> mp3Final \<noteq> []))"

section \<open>Sessions\<close>

text \<open>
  What a session does to the outside is recorded, in order, in its \<open>trace\<close>. The texts
  of the error events are fixed in the source, so an event names its kind.
\<close>

datatype sse_event = Mp3 string | AudioProcessingError | RemoteWsError | Mp3ConversionError

datatype effect =
    WriteHead200
  | SseWrite sse_event
  | Respond nat
  | ResEnd
  | Fetch
  | ScheduleRetry
  | NewWebSocket
  | WsClose
  | SetInterval
  | SetConnectionTimeout
  | ClearConnectionTimeout
  | ScheduleEnd
  | EncodeBatch "int16 list list"

text \<open>
  The variables of one request: \<open>audioBuffer\<close> and \<open>retryCount\<close> are declared inside the
  request handler; \<open>isOpen\<close> is \<^verbatim>\<open>remoteWs.readyState === WebSocket.OPEN\<close>;
  \<open>closeListener\<close> says that \<^verbatim>\<open>req.on('close', ...)\<close> has been executed, \<open>timeoutArmed\<close>
  that the connection timeout of the second file is set and has neither fired nor been
  cleared. The variable \<^verbatim>\<open>filterState\<close> is declared once for the whole module: it is not
  a field of the session, every handler that uses it takes it and returns it.
\<close>

record session =
  audioBuffer :: "int16 list list"
  retryCount :: nat
  isOpen :: bool
  closeListener :: bool
  timeoutArmed :: bool
  trace :: "effect list"

definition newSession :: session where
  "newSession =
     \<lparr> audioBuffer = [], retryCount = 0, isOpen = False, closeListener = False,
       timeoutArmed = False, trace = [] \<rparr>"

definition emit :: "effect list \<Rightarrow> session \<Rightarrow> session" where
  "emit es s = s\<lparr> trace := trace s @ es \<rparr>"

definition sampleRate :: int where
  "sampleRate = 32000"

definition lowPassCutoff :: int where
  "lowPassCutoff = 1000"

definition MAX_RETRIES :: nat where
  "MAX_RETRIES = 30"

subsection \<open>Handlers the two files share\<close>

datatype ws_data = ArrayBuffer "byte list" | OtherData

text \<open>
  \<^verbatim>\<open>remoteWs.on('message')\<close>. The assignment to \<^verbatim>\<open>filterState\<close> and the push come after
  the calls that may throw, so the \<^verbatim>\<open>catch\<close> branch finds both variables as they were.
\<close>

definition on_message :: "'n number_ops \<Rightarrow> ws_data \<Rightarrow> 'n \<times> session \<Rightarrow> 'n \<times> session" where
  "on_message N data st =
     (case st of (filterState, s) \<Rightarrow>
       (case data of
          OtherData \<Rightarrow> (filterState, s)
        | ArrayBuffer arrayBuffer \<Rightarrow>
            (case convertPCMToInt16 arrayBuffer of
               Inl e \<Rightarrow> (filterState, emit [SseWrite AudioProcessingError] s)
             | Inr int16Chunk \<Rightarrow>
                 (case applyLowPassFilter N int16Chunk (n_lit N sampleRate)
                         (n_lit N lowPassCutoff) filterState of
                    (filtered, lastValue) \<Rightarrow>
                      (lastValue, s\<lparr> audioBuffer := audioBuffer s @ [filtered] \<rparr>)))))"

text \<open>\<^verbatim>\<open>req.on('close')\<close>: the only statement besides the log is \<^verbatim>\<open>remoteWs.close()\<close>.\<close>

definition on_req_close :: "session \<Rightarrow> session" where
  "on_req_close s = emit [WsClose] (s\<lparr> isOpen := False \<rparr>)"

text \<open>
  The \<^verbatim>\<open>setInterval\<close> callback is an async function with one \<^verbatim>\<open>await\<close>. \<open>flush_begin\<close>
  is the part before it: the test of the buffer and the call of \<^verbatim>\<open>convertChunksToMp3\<close>,
  whose settled result the callback is suspended on. \<open>flush_resume\<close> is the part after
  it, inside the \<^verbatim>\<open>try\<close>: the buffer is reset and the text written when it is truthy; a
  rejection goes to the \<^verbatim>\<open>catch\<close> branch, which writes the error event and resets nothing.
\<close>

type_synonym flush_result = "js_error + string option"

definition flush_begin :: "'e mp3_encoder \<Rightarrow> session \<Rightarrow> session \<times> flush_result option" where
  "flush_begin E s =
     (if 0 < length (audioBuffer s)
      then (emit [EncodeBatch (audioBuffer s)] s, Some (convertChunksToMp3 E (audioBuffer s)))
      else (s, None))"

definition flush_resume :: "flush_result \<Rightarrow> session \<Rightarrow> session" where
  "flush_resume r s =
     (case r of
        Inl e \<Rightarrow> emit [SseWrite Mp3ConversionError] s
      | Inr None \<Rightarrow> s\<lparr> audioBuffer := [] \<rparr>
      | Inr (Some mp3Base64) \<Rightarrow>
          (if mp3Base64 = [] then s\<lparr> audioBuffer := [] \<rparr>
           else emit [SseWrite (Mp3 mp3Base64)] (s\<lparr> audioBuffer := [] \<rparr>)))"

text \<open>
  \<^verbatim>\<open>convertChunksToMp3\<close> has no \<^verbatim>\<open>await\<close>, so its promise is settled when the callback
  awaits it: the part after the \<^verbatim>\<open>await\<close> is a promise job, and promise jobs run before
  the event loop calls the next handler. No handler runs between the two parts: a tick
  is one step.
\<close>

definition flush_tick :: "'e mp3_encoder \<Rightarrow> session \<Rightarrow> session" where
  "flush_tick E s =
     (case flush_begin E s of
        (s', None) \<Rightarrow> s'
      | (s', Some r) \<Rightarrow> flush_resume r s')"

subsection \<open>Events of one session\<close>

datatype event =
    WsOpen
  | WsMessage ws_data
  | WsError nat
  | WsClosed string
  | ReqClose
  | FlushTick
  | ConnectionTimeout
  | EndTimer

subsection \<open>The first file (\<^verbatim>\<open>src/index.ts\<close>)\<close>

text \<open>
  \<^verbatim>\<open>new WebSocket(address)\<close> throws when the library \<^verbatim>\<open>ws\<close> does not accept the
  address. The library is not part of the repository: the addresses taken as accepted
  are those that begin with the scheme \<^verbatim>\<open>ws\<close> or \<^verbatim>\<open>wss\<close>.
\<close>

definition isWsURL :: "string \<Rightarrow> bool" where
  "isWsURL url = (take 5 url = ''ws://'' \<or> take 6 url = ''wss://'')"

text \<open>
  The request handler up to its end. \<^verbatim>\<open>!wsURL\<close> holds for a missing and for an empty
  parameter. The headers are written first; when the constructor of the socket throws,
  the handler ends there, with no listener and no timer; otherwise the listeners are
  registered and the interval is set in the same synchronous run.
\<close>

definition stream_v1 :: "string option \<Rightarrow> session" where
  "stream_v1 wsURL =
     (case wsURL of
        None \<Rightarrow> emit [Respond 400] newSession
      | Some url \<Rightarrow>
          (if url = [] then emit [Respond 400] newSession
           else if isWsURL url
           then emit [WriteHead200, NewWebSocket, SetInterval] (newSession\<lparr> closeListener := True \<rparr>)
           else emit [WriteHead200] newSession))"

text \<open>
  The handlers of a session, by event. The disconnect of the client reaches
  \<^verbatim>\<open>remoteWs.close()\<close> only when the listener is registered.
\<close>

fun step_v1 :: "'n number_ops \<Rightarrow> 'e mp3_encoder \<Rightarrow> event \<Rightarrow> 'n \<times> session \<Rightarrow> 'n \<times> session" where
  "step_v1 N E WsOpen (filterState, s) = (filterState, s\<lparr> isOpen := True \<rparr>)"
| "step_v1 N E (WsMessage data) (filterState, s) = on_message N data (filterState, s)"
| "step_v1 N E (WsError code) (filterState, s) = (filterState, emit [SseWrite RemoteWsError] s)"
| "step_v1 N E (WsClosed reason) (filterState, s) =
     (filterState, emit [ScheduleEnd] (s\<lparr> isOpen := False \<rparr>))"
| "step_v1 N E ReqClose (filterState, s) =
     (filterState, if closeListener s then on_req_close s else s)"
| "step_v1 N E FlushTick (filterState, s) = (filterState, flush_tick E s)"
| "step_v1 N E ConnectionTimeout (filterState, s) = (filterState, s)"
| "step_v1 N E EndTimer (filterState, s) = (filterState, emit [ResEnd] s)"

definition run_v1 :: "'n number_ops \<Rightarrow> 'e mp3_encoder \<Rightarrow> event list \<Rightarrow> 'n \<times> session \<Rightarrow> 'n \<times> session" where
  "run_v1 N E evs st = foldl (\<lambda>st ev. step_v1 N E ev st) st evs"

subsection \<open>The second file (\<^verbatim>\<open>src/unnamed/part_000\<close>)\<close>

text \<open>
  One call of \<^verbatim>\<open>connectWebSocket\<close> settles with the outcome of its \<^verbatim>\<open>fetch\<close>: a status,
  together with whether \<^verbatim>\<open>new WebSocket(wsURL)\<close> would throw, or a rejection. A retry is a
  \<^verbatim>\<open>setTimeout(connectWebSocket, RETRY_DELAY)\<close>, which fires: the next call consumes the
  next outcome of the list. With no outcome left the call stays suspended at its \<^verbatim>\<open>fetch\<close>.
\<close>

datatype probe = FetchStatus nat bool | FetchRejected

definition retryOrGiveUp :: "session \<Rightarrow> bool \<times> session" where
  "retryOrGiveUp s =
     (if retryCount s < MAX_RETRIES
      then (True, emit [ScheduleRetry] (s\<lparr> retryCount := retryCount s + 1 \<rparr>))
      else (False, emit [Respond 503] s))"

fun connectWebSocket :: "probe list \<Rightarrow> session \<Rightarrow> session" where
  "connectWebSocket [] s = emit [Fetch] s"
| "connectWebSocket (FetchRejected # rest) s =
     (case retryOrGiveUp (emit [Fetch] s) of
        (True, s') \<Rightarrow> connectWebSocket rest s'
      | (False, s') \<Rightarrow> s')"
| "connectWebSocket (FetchStatus status ctorThrows # rest) s =
     (if status = 404 then emit [Fetch, Respond 404] s
      else if status = 400 \<and> retryCount s < MAX_RETRIES
      then connectWebSocket rest (emit [Fetch, ScheduleRetry] (s\<lparr> retryCount := retryCount s + 1 \<rparr>))
      else if ctorThrows
      then (case retryOrGiveUp (emit [Fetch] s) of
              (True, s') \<Rightarrow> connectWebSocket rest s'
            | (False, s') \<Rightarrow> s')
      else emit [Fetch, NewWebSocket, SetConnectionTimeout, SetInterval]
             (s\<lparr> audioBuffer := [], isOpen := False, closeListener := True,
                timeoutArmed := True \<rparr>))"

definition stream_v2 :: "string option \<Rightarrow> probe list \<Rightarrow> session" where
  "stream_v2 wsURL1 probes =
     (if wsURL1 = None \<or> wsURL1 = Some [] then emit [Respond 400] newSession
      else connectWebSocket probes newSession)"

text \<open>\<^verbatim>\<open>reason.includes('404')\<close>: the text occurs somewhere in the reason.\<close>

fun str_includes :: "string \<Rightarrow> string \<Rightarrow> bool" where
  "str_includes [] searchString = (searchString = [])"
| "str_includes (c # cs) searchString =
     (take (length searchString) (c # cs) = searchString \<or> str_includes cs searchString)"

text \<open>
  The handlers one call of \<^verbatim>\<open>connectWebSocket\<close> registers on the socket it creates. A
  retry they schedule is recorded; the call it leads to is \<open>connectWebSocket\<close> again.
  \<^verbatim>\<open>req.on('close', ...)\<close> is among the statements after the awaited probe, so before a
  socket is created a disconnect finds no listener. The connection timeout is set with
  the socket and cleared by the open handler; it fires at most once.
\<close>

fun step_v2 :: "'n number_ops \<Rightarrow> 'e mp3_encoder \<Rightarrow> event \<Rightarrow> 'n \<times> session \<Rightarrow> 'n \<times> session" where
  "step_v2 N E WsOpen (filterState, s) =
     (filterState,
      emit [ClearConnectionTimeout, WriteHead200] (s\<lparr> isOpen := True, timeoutArmed := False \<rparr>))"
| "step_v2 N E ConnectionTimeout (filterState, s) =
     (filterState,
      if timeoutArmed s
      then (if isOpen s then s\<lparr> timeoutArmed := False \<rparr>
            else emit [Respond 504, WsClose] (s\<lparr> timeoutArmed := False \<rparr>))
      else s)"
| "step_v2 N E (WsMessage data) (filterState, s) = on_message N data (filterState, s)"
| "step_v2 N E (WsError code) (filterState, s) =
     (filterState,
      if code = 400 \<and> retryCount s < MAX_RETRIES
      then emit [ScheduleRetry] (s\<lparr> retryCount := retryCount s + 1 \<rparr>)
      else if code = 404 then emit [Respond 404, WsClose] (s\<lparr> isOpen := False \<rparr>)
      else emit [Respond 502] s)"
| "step_v2 N E (WsClosed reason) (filterState, s) =
     (let statusCode = (if str_includes reason ''404'' then 404
                        else if str_includes reason ''400'' then 400 else (503 :: nat));
          s' = s\<lparr> isOpen := False \<rparr>
      in (filterState,
          if statusCode = 400 \<and> retryCount s' < MAX_RETRIES
          then emit [ScheduleRetry] (s'\<lparr> retryCount := retryCount s' + 1 \<rparr>)
          else if statusCode = 404 then emit [Respond 404] s'
          else emit [Respond statusCode] s'))"
| "step_v2 N E ReqClose (filterState, s) =
     (filterState, if closeListener s then on_req_close s else s)"
| "step_v2 N E FlushTick (filterState, s) = (filterState, flush_tick E s)"
| "step_v2 N E EndTimer (filterState, s) = (filterState, s)"

definition run_v2 :: "'n number_ops \<Rightarrow> 'e mp3_encoder \<Rightarrow> event list \<Rightarrow> 'n \<times> session \<Rightarrow> 'n \<times> session" where
  "run_v2 N E evs st = foldl (\<lambda>st ev. step_v2 N E ev st) st evs"

subsection \<open>Schedules of pushes and flushes\<close>

text \<open>
  A schedule lists, in the order they happen, the frames received and the ticks of the
  flush timer of one session. Both files have the same two handlers.
\<close>

datatype sched = Push ws_data | Flush

fun sched_step :: "'n number_ops \<Rightarrow> 'e mp3_encoder \<Rightarrow> sched \<Rightarrow> 'n \<times> session \<Rightarrow> 'n \<times> session" where
  "sched_step N E (Push data) st = on_message N data st"
| "sched_step N E Flush (filterState, s) = (filterState, flush_tick E s)"

definition sched_run ::
  "'n number_ops \<Rightarrow> 'e mp3_encoder \<Rightarrow> sched list \<Rightarrow> 'n \<times> session \<Rightarrow> 'n \<times> session" where
  "sched_run N E sch st = foldl (\<lambda>st x. sched_step N E x st) st sch"

subsection \<open>Encoders for concrete runs\<close>

text \<open>
  Two stand-ins for the library, used where a run is evaluated: one that keeps the
  contract above (it emits the bytes of every block, and one byte at the flush), and
  one that throws.
\<close>

definition enc_bytes :: "unit mp3_encoder" where
  "enc_bytes =
     \<lparr> enc_new = (), enc_encodeBuffer = (\<lambda>e block. Inr (e, encodeInt16LE block)),
       enc_flush = (\<lambda>e. Inr [255]) \<rparr>"

definition enc_throws :: "unit mp3_encoder" where
  "enc_throws =
     \<lparr> enc_new = (), enc_encodeBuffer = (\<lambda>e block. Inl LibraryError),
       enc_flush = (\<lambda>e. Inr []) \<rparr>"

subsection \<open>Several sessions in one process\<close>

text \<open>
  The process holds the one \<^verbatim>\<open>filterState\<close> of the module and the sessions of the
  requests being served, by a session number. An event of a session runs that session's
  handler (of the first file; the frame handler of the second is the same) on the shared
  variable.
\<close>

record 'n process =
  filterState :: "'n"
  sessions :: "nat \<Rightarrow> session"

definition newProcess :: "'n number_ops \<Rightarrow> 'n process" where
  "newProcess N = \<lparr> filterState = n_lit N 0, sessions = (\<lambda>sid. newSession) \<rparr>"

definition dispatch :: "'n number_ops \<Rightarrow> 'e mp3_encoder \<Rightarrow> nat \<times> event \<Rightarrow> 'n process \<Rightarrow> 'n process" where
  "dispatch N E sev p =
     (case sev of (sid, ev) \<Rightarrow>
       (case step_v1 N E ev (filterState p, sessions p sid) of
          (filterState', s') \<Rightarrow>
            p\<lparr> filterState := filterState', sessions := (sessions p)(sid := s') \<rparr>))"

definition serve :: "'n number_ops \<Rightarrow> 'e mp3_encoder \<Rightarrow> (nat \<times> event) list \<Rightarrow> 'n process \<Rightarrow> 'n process" where
  "serve N E sevs p = foldl (\<lambda>p sev. dispatch N E sev p) p sevs"

subsection \<open>Auxiliary notions of the statements\<close>

text \<open>The sample the decoder reads at index \<open>k\<close> of a buffer.\<close>

definition sampleAt :: "byte list \<Rightarrow> nat \<Rightarrow> int16" where
  "sampleAt arrayBuffer k = word_cat (arrayBuffer ! (2 * k + 1)) (arrayBuffer ! (2 * k))"

text \<open>The batches a trace shows as handed to the encoder, in order.\<close>

fun batch_of :: "effect \<Rightarrow> int16 list list list" where
  "batch_of (EncodeBatch chunks) = [chunks]"
| "batch_of other = []"

definition batches :: "effect list \<Rightarrow> int16 list list list" where
  "batches t = concat (map batch_of t)"

text \<open>
  The unrounded outputs \<open>y[n] = alpha * x[n] + (1 - alpha) * y[n - 1]\<close> of the filter,
  computed with the operations of \<open>N\<close>.
\<close>

fun lowPassOutputs :: "'n number_ops \<Rightarrow> 'n \<Rightarrow> int16 list \<Rightarrow> 'n \<Rightarrow> 'n list" where
  "lowPassOutputs N alpha [] previous = []"
| "lowPassOutputs N alpha (x # data) previous =
     (let y = n_add N (n_mul N alpha (n_lit N (sint x)))
                      (n_mul N (n_sub N (n_lit N 1) alpha) previous)
      in y # lowPassOutputs N alpha data y)"

text \<open>
  The integer \<^verbatim>\<open>Math.round\<close> gives for a finite double (0 stands for NaN and the
  infinities, which no integer represents and which the store turns into 0); the
  clamping to the signed 16-bit range the specification asks for (the program has no
  such function); and the reduction modulo \<open>2 ^ 16\<close> into that range.
\<close>

fun roundedInt :: "number \<Rightarrow> int" where
  "roundedInt (Fin x) = \<lfloor>x + 1 / 2\<rfloor>"
| "roundedInt x = 0"

definition clampInt16 :: "int \<Rightarrow> int" where
  "clampInt16 v = max (- 32768) (min 32767 v)"

definition wrapInt16 :: "int \<Rightarrow> int" where
  "wrapInt16 v = (v + 32768) mod 65536 - 32768"

section \<open>Properties of the decoder\<close>

lemma ucast_word_cat_low: "(ucast (word_cat hi lo :: int16) :: byte) = lo" for hi lo :: byte
  by (rule bit_word_eqI) (auto simp add: bit_simps)

lemma ucast_word_cat_high: "(ucast (drop_bit 8 (word_cat hi lo :: int16)) :: byte) = hi" for hi lo :: byte
  by (rule bit_word_eqI) (auto simp add: bit_simps)

lemma convertPCMToInt16_loop_even:
  "length buf = 2 * n \<Longrightarrow> length arr = n \<Longrightarrow> i \<le> n \<Longrightarrow>
   convertPCMToInt16_loop buf i arr = Inr (take i arr @ map (sampleAt buf) [i..<n])"
proof (induction "n - i" arbitrary: i arr)
  case 0
  then have "i = n" by simp
  with 0 show ?case by (subst convertPCMToInt16_loop.simps) simp
next
  case (Suc d)
  then have lt: "i < n" by simp
  with Suc.prems have g: "getInt16 buf (i * 2) = Inr (sampleAt buf i)"
    by (simp add: getInt16_def sampleAt_def mult.commute)
  have ih: "convertPCMToInt16_loop buf (Suc i) (arr[i := sampleAt buf i]) =
        Inr (take (Suc i) (arr[i := sampleAt buf i]) @ map (sampleAt buf) [Suc i..<n])"
    using Suc.hyps(1)[of "Suc i" "arr[i := sampleAt buf i]"] Suc.hyps(2) Suc.prems lt by simp
  have tk: "take (Suc i) (arr[i := sampleAt buf i]) = take i arr @ [sampleAt buf i]"
    using lt Suc.prems by (simp add: take_Suc_conv_app_nth)
  have up: "[i..<n] = i # [Suc i..<n]" using lt by (simp add: upt_conv_Cons)
  show ?case
    using lt Suc.prems(1) g ih tk up
    by (subst convertPCMToInt16_loop.simps) simp
qed

lemma convertPCMToInt16_loop_odd:
  "length buf = 2 * n + 1 \<Longrightarrow> i \<le> n \<Longrightarrow> convertPCMToInt16_loop buf i arr = Inl RangeError"
proof (induction "n - i" arbitrary: i arr)
  case 0
  then have "i = n" by simp
  with 0 have g: "getInt16 buf (i * 2) = Inl RangeError"
    by (simp add: getInt16_def)
  show ?case using 0 \<open>i = n\<close> g by (subst convertPCMToInt16_loop.simps) simp
next
  case (Suc d)
  then have lt: "i < n" by simp
  with Suc.prems have g: "getInt16 buf (i * 2) = Inr (sampleAt buf i)"
    by (simp add: getInt16_def sampleAt_def mult.commute)
  have ih: "convertPCMToInt16_loop buf (Suc i) (arr[i := sampleAt buf i]) = Inl RangeError"
    using Suc.hyps(1)[of "Suc i"] Suc.hyps(2) Suc.prems lt by simp
  show ?case
    using lt Suc.prems(1) g ih
    by (subst convertPCMToInt16_loop.simps) simp
qed

lemma convertPCMToInt16_even:
  "even (length buf) \<Longrightarrow>
   convertPCMToInt16 buf = Inr (map (sampleAt buf) [0..<length buf div 2])"
  using convertPCMToInt16_loop_even[of buf "length buf div 2" "replicate (length buf div 2) 0" 0]
  by (auto simp add: convertPCMToInt16_def)

lemma convertPCMToInt16_odd:
  "odd (length buf) \<Longrightarrow> convertPCMToInt16 buf = Inl RangeError"
proof -
  assume "odd (length buf)"
  then obtain n where "length buf = 2 * n + 1" by (auto elim: oddE)
  then show ?thesis
    using convertPCMToInt16_loop_odd[of buf n 0] by (simp add: convertPCMToInt16_def)
qed

lemma take_last_two: "length xs = Suc (Suc m) \<Longrightarrow> take m xs @ [xs ! m, xs ! Suc m] = xs"
proof -
  assume len: "length xs = Suc (Suc m)"
  then have "drop (Suc (Suc m)) xs = []" by simp
  moreover have "xs ! Suc m # drop (Suc (Suc m)) xs = drop (Suc m) xs"
    using len by (intro Cons_nth_drop_Suc) simp
  moreover have "xs ! m # drop (Suc m) xs = drop m xs"
    using len by (intro Cons_nth_drop_Suc) simp
  ultimately have "drop m xs = [xs ! m, xs ! Suc m]" by simp
  then show ?thesis using append_take_drop_id [of m xs] by simp
qed

lemma encodeInt16LE_samples:
  "length buf = 2 * n \<Longrightarrow> encodeInt16LE (map (sampleAt buf) [0..<n]) = buf"
proof (induction n arbitrary: buf)
  case 0
  then show ?case by (simp add: encodeInt16LE_def)
next
  case (Suc n)
  let ?pre = "take (2 * n) buf"
  have len: "length ?pre = 2 * n" using Suc.prems by simp
  have same: "map (sampleAt buf) [0..<n] = map (sampleAt ?pre) [0..<n]"
    by (rule map_cong) (auto simp add: sampleAt_def)
  have ih: "encodeInt16LE (map (sampleAt ?pre) [0..<n]) = ?pre"
    using Suc.IH[OF len] .
  have last2: "buf = ?pre @ [buf ! (2 * n), buf ! (2 * n + 1)]"
    using Suc.prems take_last_two [of buf "2 * n"] by simp
  have "encodeInt16LE (map (sampleAt buf) [0..<Suc n]) =
        encodeInt16LE (map (sampleAt buf) [0..<n]) @ [buf ! (2 * n), buf ! (2 * n + 1)]"
    by (simp add: encodeInt16LE_def sampleAt_def ucast_word_cat_low ucast_word_cat_high)
  also have "\<dots> = ?pre @ [buf ! (2 * n), buf ! (2 * n + 1)]"
    by (simp only: same ih)
  also have "\<dots> = buf"
    by (rule last2 [symmetric])
  finally show ?case .
qed

text \<open>
  C7. A buffer of even length decodes without an error; the samples, written back low
  byte first, are the bytes of the buffer; there are half as many samples as bytes, and
  each lies in the signed 16-bit range.
\<close>

theorem pcm_round_trip:
  "even (length buf) \<Longrightarrow>
   \<exists>samples. convertPCMToInt16 buf = Inr samples \<and> encodeInt16LE samples = buf \<and>
     length samples = length buf div 2 \<and>
     (\<forall>x \<in> set samples. - 32768 \<le> sint x \<and> sint x \<le> 32767)"
proof -
  assume ev: "even (length buf)"
  have rng: "- 32768 \<le> sint x \<and> sint x \<le> 32767" for x :: int16
    using sint_ge [of x] sint_lt [of x] by simp
  from ev have "length buf = 2 * (length buf div 2)" by simp
  then have "encodeInt16LE (map (sampleAt buf) [0..<length buf div 2]) = buf"
    by (rule encodeInt16LE_samples)
  with convertPCMToInt16_even [OF ev] rng show ?thesis by simp
qed

theorem pcm_round_trip_witness:
  "even (length [0x34, 0x12, 0xFF, 0xFF :: byte]) \<and>
   (\<exists>samples. convertPCMToInt16 [0x34, 0x12, 0xFF, 0xFF] = Inr samples \<and>
      encodeInt16LE samples = [0x34, 0x12, 0xFF, 0xFF] \<and>
      length samples = length [0x34, 0x12, 0xFF, 0xFF :: byte] div 2 \<and>
      (\<forall>x \<in> set samples. - 32768 \<le> sint x \<and> sint x \<le> 32767))"
  using pcm_round_trip [of "[0x34, 0x12, 0xFF, 0xFF]"] by simp

lemma convertPCMToInt16_example:
  "convertPCMToInt16 [0x34, 0x12, 0xFF, 0xFF] = Inr [0x1234, 0xFFFF]"
  by code_simp

section \<open>Properties of the filter\<close>

lemma applyLowPassFilter_loop_append:
  "applyLowPassFilter_loop N alpha (A @ B) s =
     (case applyLowPassFilter_loop N alpha A s of
        (fa, la) \<Rightarrow>
          (case applyLowPassFilter_loop N alpha B la of
             (fb, lb) \<Rightarrow> (fa @ fb, lb)))"
  by (induction A arbitrary: s) (simp_all add: Let_def split: prod.split)

text \<open>
  C1. Filtering \<open>A\<close> with carry \<open>s\<close> and then \<open>B\<close> with the unrounded last output of the
  first call gives the rounded outputs, and the last carry, of one call on \<open>A @ B\<close> with
  carry \<open>s\<close>. This holds for every interpretation \<open>N\<close> of the arithmetic, so for the
  IEEE doubles the program runs on: both sides perform the same operations in the same
  order.
\<close>

theorem filter_chunk_continuity:
  "applyLowPassFilter N (A @ B) rate cutoff s =
     (case applyLowPassFilter N A rate cutoff s of
        (filteredA, lastA) \<Rightarrow>
          (case applyLowPassFilter N B rate cutoff lastA of
             (filteredB, lastB) \<Rightarrow> (filteredA @ filteredB, lastB)))"
  by (simp add: applyLowPassFilter_def applyLowPassFilter_loop_append)

section \<open>The filter in IEEE doubles\<close>

text \<open>
  The rounding is what it is meant to be. \<open>ilog2 a\<close> is the exponent of the binade of
  \<open>a\<close>; the test for an infinity compares with \<open>2 powi 1024\<close>; and a finite result is
  an integer of at most 53 bits times the spacing of its binade, no farther from the
  exact value than half that spacing.
\<close>

lemma ilog2_bounds:
  assumes "0 < a"
  shows "2 powi (ilog2 a) \<le> a \<and> a < 2 powi (ilog2 a + 1)"
proof -
  obtain p q where pq: "quotient_of a = (p, q)" by (cases "quotient_of a")
  have q: "0 < q" using quotient_of_denom_pos [OF pq] .
  have a: "a = of_int p / of_int q" using quotient_of_div [OF pq] .
  have p: "0 < p" using assms q a by (simp add: zero_less_divide_iff)
  define bp where "bp = bitlen p"
  define bq where "bq = bitlen q"
  have bp: "2 ^ nat (bp - 1) \<le> p" "p < 2 ^ nat bp" "1 \<le> bp"
    using bitlen_bounds [OF p] bitlen_nonneg [of p] p
    by (auto simp add: bp_def bitlen_alt_def)
  have bq: "2 ^ nat (bq - 1) \<le> q" "q < 2 ^ nat bq" "1 \<le> bq"
    using bitlen_bounds [OF q] q
    by (auto simp add: bq_def bitlen_alt_def)
  have P1: "(2::rat) powi (bp - 1) \<le> of_int p"
  proof -
    have "(of_int (2 ^ nat (bp - 1)) :: rat) \<le> of_int p" using bp(1) by (simp only: of_int_le_iff)
    then show ?thesis using bp(3) by (simp add: power_int_def)
  qed
  have P2: "of_int p < (2::rat) powi bp"
  proof -
    have "(of_int p :: rat) < of_int (2 ^ nat bp)" using bp(2) by (simp only: of_int_less_iff)
    then show ?thesis using bp(3) by (simp add: power_int_def)
  qed
  have Q1: "(2::rat) powi (bq - 1) \<le> of_int q"
  proof -
    have "(of_int (2 ^ nat (bq - 1)) :: rat) \<le> of_int q" using bq(1) by (simp only: of_int_le_iff)
    then show ?thesis using bq(3) by (simp add: power_int_def)
  qed
  have Q2: "of_int q < (2::rat) powi bq"
  proof -
    have "(of_int q :: rat) < of_int (2 ^ nat bq)" using bq(2) by (simp only: of_int_less_iff)
    then show ?thesis using bq(3) by (simp add: power_int_def)
  qed
  have qpos: "(0::rat) < of_int q" using q by simp
  have up: "a < 2 powi (bp - bq + 1)"
  proof -
    have "of_int p < (2::rat) powi bp" by (rule P2)
    also have "\<dots> = 2 powi (bp - bq + 1) * 2 powi (bq - 1)"
      by (simp add: power_int_add [symmetric])
    also have "\<dots> \<le> 2 powi (bp - bq + 1) * of_int q"
      using Q1 by (intro mult_left_mono) simp_all
    finally show ?thesis using qpos by (simp add: a pos_divide_less_eq)
  qed
  have lo: "2 powi (bp - bq - 1) < a"
  proof -
    have "2 powi (bp - bq - 1) * of_int q < (2::rat) powi (bp - bq - 1) * 2 powi bq"
      using Q2 by (intro mult_strict_left_mono) simp_all
    also have "\<dots> = 2 powi (bp - 1)"
      by (simp add: power_int_add [symmetric])
    also have "\<dots> \<le> of_int p" by (rule P1)
    finally show ?thesis using qpos by (simp add: a pos_less_divide_eq)
  qed
  show ?thesis
  proof (cases "2 powi (bp - bq) \<le> a")
    case True
    then have "ilog2 a = bp - bq" by (simp add: ilog2_def pq bp_def bq_def Let_def)
    with True up show ?thesis by simp
  next
    case False
    then have "ilog2 a = bp - bq - 1" by (simp add: ilog2_def pq bp_def bq_def Let_def)
    with False lo show ?thesis by simp
  qed
qed

lemma ilog2_overflow:
  assumes "0 < v"
  shows "(1024 \<le> ilog2 v) = (2 powi 1024 \<le> v)"
proof
  assume "1024 \<le> ilog2 v"
  then have "(2::rat) powi 1024 \<le> 2 powi (ilog2 v)" by (intro power_int_increasing) simp_all
  also have "\<dots> \<le> v" using ilog2_bounds [OF assms] by simp
  finally show "2 powi 1024 \<le> v" .
next
  assume big: "2 powi 1024 \<le> v"
  show "1024 \<le> ilog2 v"
  proof (rule ccontr)
    assume "\<not> 1024 \<le> ilog2 v"
    then have "ilog2 v + 1 \<le> 1024" by simp
    then have "(2::rat) powi (ilog2 v + 1) \<le> 2 powi 1024" by (intro power_int_increasing) simp_all
    moreover have "v < 2 powi (ilog2 v + 1)" using ilog2_bounds [OF assms] by simp
    ultimately show False using big by simp
  qed
qed

lemma roundHalfEven_error: "\<bar>of_int (roundHalfEven y) - y\<bar> \<le> 1 / 2"
proof -
  have "of_int \<lfloor>y\<rfloor> \<le> y" "y < of_int \<lfloor>y\<rfloor> + 1" by linarith+
  then show ?thesis
    unfolding roundHalfEven_def Let_def by (auto simp add: abs_le_iff)
qed

lemma roundToDouble_nearest:
  assumes "roundToDouble x = Fin y"
  shows "\<exists>m. y = of_int m * 2 powi (max (ilog2 \<bar>x\<bar>) (- 1022) - 52) \<and> \<bar>m\<bar> \<le> 2 ^ 53 \<and>
           \<bar>y - x\<bar> \<le> 2 powi (max (ilog2 \<bar>x\<bar>) (- 1022) - 53)"
proof (cases "x = 0")
  case True
  with assms have "y = 0" by (simp add: roundToDouble_def)
  with True have "y = of_int 0 * 2 powi (max (ilog2 \<bar>x\<bar>) (- 1022) - 52) \<and> \<bar>0 :: int\<bar> \<le> 2 ^ 53 \<and>
           \<bar>y - x\<bar> \<le> 2 powi (max (ilog2 \<bar>x\<bar>) (- 1022) - 53)"
    by simp
  then show ?thesis by blast
next
  case False
  define a where "a = \<bar>x\<bar>"
  define e where "e = max (ilog2 a) (- 1022)"
  define ulp :: rat where "ulp = 2 powi (e - 52)"
  define m where "m = roundHalfEven (a / ulp)"
  define v where "v = of_int m * ulp"
  have apos: "0 < a" using False by (simp add: a_def)
  have upos: "0 < ulp" by (simp add: ulp_def)
  have half: "ulp / 2 = 2 powi (e - 53)"
  proof -
    have "(2::rat) powi (e - 52) = 2 powi (e - 53 + 1)" by simp
    also have "\<dots> = 2 powi (e - 53) * 2" by (subst power_int_add) simp_all
    finally show ?thesis by (simp add: ulp_def)
  qed
  have err: "\<bar>of_int m - a / ulp\<bar> \<le> 1 / 2"
    unfolding m_def by (rule roundHalfEven_error)
  have "\<bar>v - a\<bar> = \<bar>of_int m - a / ulp\<bar> * ulp"
  proof -
    have "v - a = (of_int m - a / ulp) * ulp" using upos by (simp add: v_def field_simps)
    then show ?thesis using upos by (simp add: abs_mult)
  qed
  also have "\<dots> \<le> (1 / 2) * ulp" using err upos by (intro mult_right_mono) simp_all
  finally have verr: "\<bar>v - a\<bar> \<le> 2 powi (e - 53)" using half by simp
  have "a < 2 powi (ilog2 a + 1)" using ilog2_bounds [OF apos] by simp
  also have "\<dots> \<le> 2 powi (e + 1)" by (intro power_int_increasing) (simp_all add: e_def)
  also have "\<dots> = 2 ^ 53 * ulp"
  proof -
    have eq: "e + 1 = 53 + (e - 52)" by simp
    have "(2::rat) powi (e + 1) = 2 powi 53 * 2 powi (e - 52)"
      by (subst eq, subst power_int_add) simp_all
    then show ?thesis by (simp add: ulp_def)
  qed
  finally have "a / ulp < 2 ^ 53" using upos by (simp add: pos_divide_less_eq)
  moreover have "0 < a / ulp" using apos upos by simp
  ultimately have "- (1 / 2) < (of_int m :: rat)" "(of_int m :: rat) < 2 ^ 53 + 1 / 2"
    using err by linarith+
  then have "- 1 < (of_int m :: rat)" "(of_int m :: rat) < of_int (2 ^ 53 + 1)"
    by simp_all
  then have "- 1 < m" "m < 2 ^ 53 + 1"
    by (simp, simp only: of_int_less_iff)
  then have mb: "0 \<le> m" "m \<le> 2 ^ 53" by simp_all
  have unf: "roundToDouble x =
      (if m = 0 then signedZero (x < 0)
       else if 1024 \<le> ilog2 v then signedInf (x < 0)
       else Fin (if x < 0 then - v else v))"
    using False by (simp add: roundToDouble_def Let_def a_def e_def ulp_def m_def v_def)
  have y: "y = (if x < 0 then - v else v)"
  proof (cases "m = 0")
    case True
    with unf assms have "\<not> x < 0" "y = 0" by (auto simp add: signedZero_def split: if_splits)
    with True show ?thesis by (simp add: v_def)
  next
    case False
    with unf assms show ?thesis by (auto simp add: signedInf_def split: if_splits)
  qed
  have "y = of_int (if x < 0 then - m else m) * 2 powi (max (ilog2 \<bar>x\<bar>) (- 1022) - 52) \<and>
        \<bar>if x < 0 then - m else m\<bar> \<le> 2 ^ 53 \<and>
        \<bar>y - x\<bar> \<le> 2 powi (max (ilog2 \<bar>x\<bar>) (- 1022) - 53)"
  proof (intro conjI)
    show "y = of_int (if x < 0 then - m else m) * 2 powi (max (ilog2 \<bar>x\<bar>) (- 1022) - 52)"
      using y by (simp add: v_def ulp_def e_def a_def)
    show "\<bar>if x < 0 then - m else m\<bar> \<le> 2 ^ 53" using mb by simp
    have "\<bar>y - x\<bar> = \<bar>v - a\<bar>" using y by (auto simp add: a_def)
    then show "\<bar>y - x\<bar> \<le> 2 powi (max (ilog2 \<bar>x\<bar>) (- 1022) - 53)"
      using verr by (simp add: e_def a_def)
  qed
  then show ?thesis by blast
qed

text \<open>A few values of the arithmetic, as every implementation of IEEE 754 computes them.\<close>

lemma double_examples:
  "double_add (roundToDouble (1 / 10)) (roundToDouble (2 / 10)) =
     Fin (1351079888211149 / 4503599627370496)"
  "double_add (Fin 9007199254740992) (Fin 1) = Fin 9007199254740992"
  "double_div (Fin 1) (Fin 3) = Fin (6004799503160661 / 18014398509481984)"
  "double_div (Fin 1) NegZero = NegInf"
  "double_div (Fin 0) (Fin 0) = NaN"
  "double_mul (Fin (- 1)) (Fin 0) = NegZero"
  by code_simp+

lemma sampleRate_double: "n_lit double_ops sampleRate = Fin 32000"
  by code_simp

lemma lowPassCutoff_double: "n_lit double_ops lowPassCutoff = Fin 1000"
  by code_simp

lemma zero_double: "n_lit double_ops 0 = Fin 0"
  by code_simp

text \<open>The coefficient of the filter at 32000 Hz and a cutoff of 1000 Hz: 0.16412389033890668.\<close>

lemma lowPassAlpha_double:
  "lowPassAlpha double_ops (Fin 32000) (Fin 1000) = Fin (2956593165491585 / 18014398509481984)"
  by code_simp

lemma filter_loop_zero:
  "applyLowPassFilter_loop double_ops (Fin (2956593165491585 / 18014398509481984)) [0] (Fin 0) =
     ([0], Fin 0)"
  by code_simp

lemma filter_loop_1000:
  "applyLowPassFilter_loop double_ops (Fin (2956593165491585 / 18014398509481984)) [1000] (Fin 0) =
     ([164], Fin (180456125823461 / 1099511627776))"
  by code_simp

lemma filter_loop_after_1000:
  "applyLowPassFilter_loop double_ops (Fin (2956593165491585 / 18014398509481984)) [0]
     (Fin (180456125823461 / 1099511627776)) =
     ([137], Fin (4826846861370475 / 35184372088832))"
  by code_simp

lemma filter_loop_50000:
  "applyLowPassFilter_loop double_ops (Fin (2956593165491585 / 18014398509481984)) [0] (Fin 50000) =
     ([- 23742], Fin (5744096887203369 / 137438953472))"
  by code_simp

lemma filter_loop_32767:
  "applyLowPassFilter_loop double_ops (Fin (2956593165491585 / 18014398509481984)) [32767] (Fin 32767) =
     ([32767], Fin (9006924376834049 / 274877906944))"
  by code_simp

lemma filter_zero:
  "applyLowPassFilter double_ops [0] (Fin 32000) (Fin 1000) (Fin 0) = ([0], Fin 0)"
  by (simp only: applyLowPassFilter_def lowPassAlpha_double filter_loop_zero)

lemma filter_1000:
  "applyLowPassFilter double_ops [1000] (Fin 32000) (Fin 1000) (Fin 0) =
     ([164], Fin (180456125823461 / 1099511627776))"
  by (simp only: applyLowPassFilter_def lowPassAlpha_double filter_loop_1000)

lemma filter_after_1000:
  "applyLowPassFilter double_ops [0] (Fin 32000) (Fin 1000) (Fin (180456125823461 / 1099511627776)) =
     ([137], Fin (4826846861370475 / 35184372088832))"
  by (simp only: applyLowPassFilter_def lowPassAlpha_double filter_loop_after_1000)

lemma filter_50000:
  "applyLowPassFilter double_ops [0] (Fin 32000) (Fin 1000) (Fin 50000) =
     ([- 23742], Fin (5744096887203369 / 137438953472))"
  by (simp only: applyLowPassFilter_def lowPassAlpha_double filter_loop_50000)

text \<open>
  The carry is not confined to the range of the samples: from the carry 32767 and the
  sample 32767 the rounding of the products leaves 32767.000000000004.
\<close>

lemma filter_carry_above_range:
  "applyLowPassFilter double_ops [32767] (Fin 32000) (Fin 1000) (Fin 32767) =
     ([32767], Fin (32767 + 1 / 274877906944))"
  by (simp only: applyLowPassFilter_def lowPassAlpha_double filter_loop_32767) simp

lemma convertPCMToInt16_zero2: "convertPCMToInt16 [0, 0] = Inr [0]"
  by code_simp

lemma convertPCMToInt16_1000: "convertPCMToInt16 [0xE8, 0x03] = Inr [1000]"
  by code_simp

lemma convertPCMToInt16_one_byte: "convertPCMToInt16 [1] = Inl RangeError"
  by code_simp

lemma on_message_zero2:
  "on_message double_ops (ArrayBuffer [0, 0]) (Fin 0, s) =
     (Fin 0, s\<lparr> audioBuffer := audioBuffer s @ [[0]] \<rparr>)"
  by (simp add: on_message_def convertPCMToInt16_zero2 sampleRate_double lowPassCutoff_double
        filter_zero)

lemma on_message_1000:
  "on_message double_ops (ArrayBuffer [0xE8, 0x03]) (Fin 0, s) =
     (Fin (180456125823461 / 1099511627776), s\<lparr> audioBuffer := audioBuffer s @ [[164]] \<rparr>)"
  by (simp add: on_message_def convertPCMToInt16_1000 sampleRate_double lowPassCutoff_double
        filter_1000)

lemma on_message_after_1000:
  "on_message double_ops (ArrayBuffer [0, 0]) (Fin (180456125823461 / 1099511627776), s) =
     (Fin (4826846861370475 / 35184372088832), s\<lparr> audioBuffer := audioBuffer s @ [[137]] \<rparr>)"
  by (simp add: on_message_def convertPCMToInt16_zero2 sampleRate_double lowPassCutoff_double
        filter_after_1000)

lemma on_message_one_byte:
  "on_message N (ArrayBuffer [1]) (fs, s) = (fs, emit [SseWrite AudioProcessingError] s)"
  by (simp add: on_message_def convertPCMToInt16_one_byte)

lemma convertChunksToMp3_enc_bytes: "convertChunksToMp3 enc_bytes [[0]] = Inr (Some ''AAD/'')"
  by code_simp

lemma convertChunksToMp3_enc_throws: "convertChunksToMp3 enc_throws [[0]] = Inl LibraryError"
  by code_simp

section \<open>Properties of sessions\<close>

lemma batches_append: "batches (xs @ ys) = batches xs @ batches ys"
  by (simp add: batches_def)

lemma emit_simps:
  "audioBuffer (emit es s) = audioBuffer s"
  "retryCount (emit es s) = retryCount s"
  "isOpen (emit es s) = isOpen s"
  "closeListener (emit es s) = closeListener s"
  "timeoutArmed (emit es s) = timeoutArmed s"
  "trace (emit es s) = trace s @ es"
  by (simp_all add: emit_def)

lemma on_message_shape:
  "\<exists>fs' c es. batches es = [] \<and>
     (\<forall>s. on_message N d (fs, s) =
        (fs', s\<lparr> audioBuffer := audioBuffer s @ c, trace := trace s @ es \<rparr>))"
proof (cases d)
  case OtherData
  have "batches [] = [] \<and> (\<forall>s. on_message N d (fs, s) =
        (fs, s\<lparr> audioBuffer := audioBuffer s @ [], trace := trace s @ [] \<rparr>))"
    using OtherData by (simp add: on_message_def batches_def)
  then show ?thesis by blast
next
  case (ArrayBuffer buf)
  show ?thesis
  proof (cases "convertPCMToInt16 buf")
    case (Inl e)
    have "batches [SseWrite AudioProcessingError] = [] \<and> (\<forall>s. on_message N d (fs, s) =
        (fs, s\<lparr> audioBuffer := audioBuffer s @ [], trace := trace s @ [SseWrite AudioProcessingError] \<rparr>))"
      using ArrayBuffer Inl by (simp add: on_message_def batches_def emit_def)
    then show ?thesis by blast
  next
    case (Inr chunk)
    obtain filtered lastValue where
      f: "applyLowPassFilter N chunk (n_lit N sampleRate) (n_lit N lowPassCutoff) fs = (filtered, lastValue)"
      by (cases "applyLowPassFilter N chunk (n_lit N sampleRate) (n_lit N lowPassCutoff) fs")
    have "batches [] = [] \<and> (\<forall>s. on_message N d (fs, s) =
        (lastValue, s\<lparr> audioBuffer := audioBuffer s @ [filtered], trace := trace s @ [] \<rparr>))"
      using ArrayBuffer Inr f by (simp add: on_message_def batches_def)
    then show ?thesis by blast
  qed
qed

lemma pushes_shape:
  "\<exists>fs' c es. batches es = [] \<and>
     (\<forall>s. sched_run N E (map Push ds) (fs, s) =
        (fs', s\<lparr> audioBuffer := audioBuffer s @ c, trace := trace s @ es \<rparr>))"
proof (induction ds arbitrary: fs)
  case Nil
  have "batches [] = [] \<and> (\<forall>s. sched_run N E (map Push []) (fs, s) =
        (fs, s\<lparr> audioBuffer := audioBuffer s @ [], trace := trace s @ [] \<rparr>))"
    by (simp add: sched_run_def batches_def)
  then show ?case by blast
next
  case (Cons d ds)
  obtain fs1 c1 es1 where b1: "batches es1 = []" and
    m: "\<And>s. on_message N d (fs, s) =
        (fs1, s\<lparr> audioBuffer := audioBuffer s @ c1, trace := trace s @ es1 \<rparr>)"
    using on_message_shape [of N d fs] by blast
  obtain fs2 c2 es2 where b2: "batches es2 = []" and
    r: "\<And>s. sched_run N E (map Push ds) (fs1, s) =
        (fs2, s\<lparr> audioBuffer := audioBuffer s @ c2, trace := trace s @ es2 \<rparr>)"
    using Cons.IH [of fs1] by blast
  have "batches (es1 @ es2) = [] \<and> (\<forall>s. sched_run N E (map Push (d # ds)) (fs, s) =
        (fs2, s\<lparr> audioBuffer := audioBuffer s @ (c1 @ c2), trace := trace s @ (es1 @ es2) \<rparr>))"
  proof (intro conjI allI)
    show "batches (es1 @ es2) = []" using b1 b2 by (simp add: batches_append)
  next
    fix s
    have "sched_run N E (map Push (d # ds)) (fs, s) =
          sched_run N E (map Push ds) (sched_step N E (Push d) (fs, s))"
      by (simp add: sched_run_def)
    also have "\<dots> = sched_run N E (map Push ds)
          (fs1, s\<lparr> audioBuffer := audioBuffer s @ c1, trace := trace s @ es1 \<rparr>)"
      by (simp add: m)
    also have "\<dots> = (fs2, s\<lparr> audioBuffer := audioBuffer s @ (c1 @ c2),
                               trace := trace s @ (es1 @ es2) \<rparr>)"
      by (simp add: r)
    finally show "sched_run N E (map Push (d # ds)) (fs, s) =
        (fs2, s\<lparr> audioBuffer := audioBuffer s @ (c1 @ c2), trace := trace s @ (es1 @ es2) \<rparr>)" .
  qed
  then show ?case by blast
qed

lemma sched_run_append:
  "sched_run N E (xs @ ys) c = sched_run N E ys (sched_run N E xs c)"
  by (simp add: sched_run_def)

lemma sched_run_Flush: "sched_run N E [Flush] (fs, m) = (fs, flush_tick E m)"
  by (simp add: sched_run_def)

lemma convertChunksToMp3_Nil: "convertChunksToMp3 E [] = Inr None"
  by (simp add: convertChunksToMp3_def)

lemma flush_tick_audioBuffer:
  "audioBuffer (flush_tick E m) =
     (if isl (convertChunksToMp3 E (audioBuffer m)) then audioBuffer m else [])"
  by (cases "convertChunksToMp3 E (audioBuffer m)")
     (auto simp add: flush_tick_def flush_begin_def flush_resume_def emit_def
           convertChunksToMp3_Nil split: option.split)

lemma flush_tick_batches:
  "batches (trace (flush_tick E m)) =
     batches (trace m) @ (if audioBuffer m = [] then [] else [audioBuffer m])"
  by (cases "convertChunksToMp3 E (audioBuffer m)")
     (auto simp add: flush_tick_def flush_begin_def flush_resume_def emit_def batches_def
           split: option.split)

text \<open>
  C2. Every interleaving of pushes with one tick of the flush timer is a list of pushes,
  the tick, and a list of pushes. The filter state ends as in the run without the tick.
  The tick hands the encoder one batch, the accumulator as it stood then, and none when
  it was empty. The encoder not throwing, that batch followed by the final accumulator
  is the accumulator of the run without the tick: every chunk is in exactly one of the
  two, so none is dropped and none is encoded twice. When the encoder throws, the final
  accumulator is that of the run without the tick: every chunk is kept.
\<close>

theorem flush_conserves_chunks:
  "(let atFlush = audioBuffer (snd (sched_run N E (map Push pre) (fs, s)));
        noFlush = sched_run N E (map Push pre @ map Push post) (fs, s);
        withFlush = sched_run N E (map Push pre @ [Flush] @ map Push post) (fs, s)
    in fst withFlush = fst noFlush \<and>
       batches (trace (snd withFlush)) =
         batches (trace s) @ (if atFlush = [] then [] else [atFlush]) \<and>
       (if isl (convertChunksToMp3 E atFlush) then [] else atFlush) @ audioBuffer (snd withFlush) =
         audioBuffer (snd noFlush))"
proof -
  obtain fs1 c1 es1 where b1: "batches es1 = []" and
    p1: "\<And>s. sched_run N E (map Push pre) (fs, s) =
        (fs1, s\<lparr> audioBuffer := audioBuffer s @ c1, trace := trace s @ es1 \<rparr>)"
    using pushes_shape [of N E pre fs] by blast
  obtain fs2 c2 es2 where b2: "batches es2 = []" and
    p2: "\<And>s. sched_run N E (map Push post) (fs1, s) =
        (fs2, s\<lparr> audioBuffer := audioBuffer s @ c2, trace := trace s @ es2 \<rparr>)"
    using pushes_shape [of N E post fs1] by blast
  define m where "m = s\<lparr> audioBuffer := audioBuffer s @ c1, trace := trace s @ es1 \<rparr>"
  have M: "sched_run N E (map Push pre) (fs, s) = (fs1, m)"
    by (simp add: p1 m_def)
  have A: "sched_run N E (map Push pre @ map Push post) (fs, s) =
      (fs2, m\<lparr> audioBuffer := audioBuffer m @ c2, trace := trace m @ es2 \<rparr>)"
    by (simp only: sched_run_append M p2)
  have B: "sched_run N E (map Push pre @ [Flush] @ map Push post) (fs, s) =
      (fs2, (flush_tick E m)\<lparr> audioBuffer := audioBuffer (flush_tick E m) @ c2,
                               trace := trace (flush_tick E m) @ es2 \<rparr>)"
    by (simp only: sched_run_append M sched_run_Flush p2)
  have tm: "batches (trace m) = batches (trace s)"
    using b1 by (simp add: m_def batches_append)
  show ?thesis
    unfolding Let_def A B M
    using b2 tm by (simp add: flush_tick_audioBuffer flush_tick_batches batches_append)
qed

lemma flush_example:
  "audioBuffer (snd (sched_run double_ops enc_bytes
      [Push (ArrayBuffer [0, 0]), Flush, Push (ArrayBuffer [0, 0])] (Fin 0, newSession))) = [[0]] \<and>
   trace (snd (sched_run double_ops enc_bytes
      [Push (ArrayBuffer [0, 0]), Flush, Push (ArrayBuffer [0, 0])] (Fin 0, newSession))) =
     [EncodeBatch [[0]], SseWrite (Mp3 ''AAD/'')]"
  by (simp add: sched_run_def on_message_zero2 flush_tick_def flush_begin_def flush_resume_def
        convertChunksToMp3_enc_bytes emit_def newSession_def)

lemma flush_tick_shape:
  "\<exists>ab' es. \<forall>s. audioBuffer s = ab \<longrightarrow>
      flush_tick E s = s\<lparr> audioBuffer := ab', trace := trace s @ es \<rparr>"
proof (cases "ab = []")
  case True
  then have "\<forall>s. audioBuffer s = ab \<longrightarrow>
      flush_tick E s = s\<lparr> audioBuffer := [], trace := trace s @ [] \<rparr>"
    by (simp add: flush_tick_def flush_begin_def)
  then show ?thesis by blast
next
  case False
  show ?thesis
  proof (cases "convertChunksToMp3 E ab")
    case (Inl e)
    with False have "\<forall>s. audioBuffer s = ab \<longrightarrow>
      flush_tick E s = s\<lparr> audioBuffer := ab,
         trace := trace s @ [EncodeBatch ab, SseWrite Mp3ConversionError] \<rparr>"
      by (simp add: flush_tick_def flush_begin_def flush_resume_def emit_def)
    then show ?thesis by blast
  next
    case (Inr r)
    show ?thesis
    proof (cases r)
      case None
      with False Inr have "\<forall>s. audioBuffer s = ab \<longrightarrow>
        flush_tick E s = s\<lparr> audioBuffer := [], trace := trace s @ [EncodeBatch ab] \<rparr>"
        by (simp add: flush_tick_def flush_begin_def flush_resume_def emit_def)
      then show ?thesis by blast
    next
      case (Some payload)
      with False Inr have "\<forall>s. audioBuffer s = ab \<longrightarrow>
        flush_tick E s = s\<lparr> audioBuffer := [],
          trace := trace s @ (EncodeBatch ab # (if payload = [] then [] else [SseWrite (Mp3 payload)])) \<rparr>"
        by (simp add: flush_tick_def flush_begin_def flush_resume_def emit_def)
      then show ?thesis by blast
    qed
  qed
qed

subsection \<open>What the handlers read\<close>

text \<open>
  The handlers of the first file read the accumulator and whether the disconnect
  listener is registered: two sessions that agree on both take the same steps and write
  the same effects.
\<close>

lemma step_v1_frame:
  assumes "audioBuffer s = audioBuffer t" "closeListener s = closeListener t"
  shows "\<exists>fs' s' t' es. step_v1 N E ev (fs, s) = (fs', s') \<and> step_v1 N E ev (fs, t) = (fs', t') \<and>
           audioBuffer s' = audioBuffer t' \<and> closeListener s' = closeListener t' \<and>
           trace s' = trace s @ es \<and> trace t' = trace t @ es"
proof (cases ev)
  case (WsMessage d)
  obtain fs1 c es where
    m: "\<And>s. on_message N d (fs, s) =
          (fs1, s\<lparr> audioBuffer := audioBuffer s @ c, trace := trace s @ es \<rparr>)"
    using on_message_shape [of N d fs] by blast
  show ?thesis using WsMessage assms by (simp add: m)
next
  case FlushTick
  obtain ab' es where
    f: "\<And>s. audioBuffer s = audioBuffer t \<Longrightarrow>
          flush_tick E s = s\<lparr> audioBuffer := ab', trace := trace s @ es \<rparr>"
    using flush_tick_shape [of "audioBuffer t" E] by blast
  show ?thesis using FlushTick assms by (simp add: f)
qed (use assms in \<open>simp_all add: emit_def on_req_close_def\<close>)

lemma run_v1_frame:
  "audioBuffer s = audioBuffer t \<Longrightarrow> closeListener s = closeListener t \<Longrightarrow>
   \<exists>fs' s' t' es. run_v1 N E evs (fs, s) = (fs', s') \<and> run_v1 N E evs (fs, t) = (fs', t') \<and>
      audioBuffer s' = audioBuffer t' \<and> trace s' = trace s @ es \<and> trace t' = trace t @ es"
proof (induction evs arbitrary: fs s t)
  case Nil
  then show ?case by (simp add: run_v1_def)
next
  case (Cons ev evs)
  obtain fs1 s1 t1 es1 where
    a: "step_v1 N E ev (fs, s) = (fs1, s1)" and b: "step_v1 N E ev (fs, t) = (fs1, t1)" and
    c: "audioBuffer s1 = audioBuffer t1" "closeListener s1 = closeListener t1" and
    d: "trace s1 = trace s @ es1" "trace t1 = trace t @ es1"
    using step_v1_frame [OF Cons.prems, of N E ev fs] by blast
  obtain fs2 s2 t2 es2 where
    e: "run_v1 N E evs (fs1, s1) = (fs2, s2)" "run_v1 N E evs (fs1, t1) = (fs2, t2)"
       "audioBuffer s2 = audioBuffer t2" "trace s2 = trace s1 @ es2" "trace t2 = trace t1 @ es2"
    using Cons.IH [OF c, of fs1] by blast
  have "run_v1 N E (ev # evs) (fs, s) = (fs2, s2) \<and> run_v1 N E (ev # evs) (fs, t) = (fs2, t2) \<and>
      audioBuffer s2 = audioBuffer t2 \<and> trace s2 = trace s @ (es1 @ es2) \<and>
      trace t2 = trace t @ (es1 @ es2)"
    using a b d e by (simp add: run_v1_def)
  then show ?case by blast
qed

lemma run_v1_append: "run_v1 N E (xs @ ys) st = run_v1 N E ys (run_v1 N E xs st)"
  by (simp add: run_v1_def)

lemma run_v1_Cons: "run_v1 N E (x # xs) st = run_v1 N E xs (step_v1 N E x st)"
  by (simp add: run_v1_def)

lemma step_v1_closeListener:
  "closeListener (snd (step_v1 N E ev (fs, s))) = closeListener s"
proof (cases ev)
  case (WsMessage d)
  obtain fs1 c es where
    m: "\<And>s. on_message N d (fs, s) =
          (fs1, s\<lparr> audioBuffer := audioBuffer s @ c, trace := trace s @ es \<rparr>)"
    using on_message_shape [of N d fs] by blast
  show ?thesis using WsMessage by (simp add: m)
next
  case FlushTick
  obtain ab' es where
    f: "\<And>t. audioBuffer t = audioBuffer s \<Longrightarrow>
          flush_tick E t = t\<lparr> audioBuffer := ab', trace := trace t @ es \<rparr>"
    using flush_tick_shape [of "audioBuffer s" E] by blast
  show ?thesis using FlushTick by (simp add: f)
qed (simp_all add: emit_def on_req_close_def)

lemma run_v1_closeListener:
  "closeListener (snd (run_v1 N E evs (fs, s))) = closeListener s"
proof (induction evs arbitrary: fs s)
  case Nil
  then show ?case by (simp add: run_v1_def)
next
  case (Cons ev evs)
  obtain fs1 s1 where st: "step_v1 N E ev (fs, s) = (fs1, s1)"
    by (cases "step_v1 N E ev (fs, s)")
  have "closeListener s1 = closeListener s"
    using step_v1_closeListener [of N E ev fs s] st by simp
  then show ?case using Cons.IH [of fs1 s1] st by (simp add: run_v1_Cons)
qed

text \<open>
  The handlers of the second file read, besides, the retry counter and whether the
  connection timeout is armed, and the state of the socket as long as it is.
\<close>

lemma step_v2_frame:
  assumes "audioBuffer s = audioBuffer t" "retryCount s = retryCount t"
    "closeListener s = closeListener t" "timeoutArmed s = timeoutArmed t"
    "timeoutArmed s \<longrightarrow> isOpen s = isOpen t"
  shows "\<exists>fs' s' t' es. step_v2 N E ev (fs, s) = (fs', s') \<and> step_v2 N E ev (fs, t) = (fs', t') \<and>
           audioBuffer s' = audioBuffer t' \<and> retryCount s' = retryCount t' \<and>
           closeListener s' = closeListener t' \<and> timeoutArmed s' = timeoutArmed t' \<and>
           (timeoutArmed s' \<longrightarrow> isOpen s' = isOpen t') \<and>
           trace s' = trace s @ es \<and> trace t' = trace t @ es"
proof (cases ev)
  case (WsMessage d)
  obtain fs1 c es where
    m: "\<And>s. on_message N d (fs, s) =
          (fs1, s\<lparr> audioBuffer := audioBuffer s @ c, trace := trace s @ es \<rparr>)"
    using on_message_shape [of N d fs] by blast
  show ?thesis using WsMessage assms by (simp add: m)
next
  case FlushTick
  obtain ab' es where
    f: "\<And>s. audioBuffer s = audioBuffer t \<Longrightarrow>
          flush_tick E s = s\<lparr> audioBuffer := ab', trace := trace s @ es \<rparr>"
    using flush_tick_shape [of "audioBuffer t" E] by blast
  show ?thesis using FlushTick assms by (simp add: f)
next
  case ConnectionTimeout
  show ?thesis
  proof (cases "timeoutArmed s")
    case True
    with ConnectionTimeout assms show ?thesis by (cases "isOpen s") (simp_all add: emit_def)
  next
    case False
    with ConnectionTimeout assms show ?thesis by simp
  qed
qed (use assms in \<open>simp_all add: emit_def on_req_close_def Let_def\<close>)

lemma run_v2_Cons: "run_v2 N E (x # xs) st = run_v2 N E xs (step_v2 N E x st)"
  by (simp add: run_v2_def)

lemma run_v2_append: "run_v2 N E (xs @ ys) st = run_v2 N E ys (run_v2 N E xs st)"
  by (simp add: run_v2_def)

lemma run_v2_frame:
  "audioBuffer s = audioBuffer t \<Longrightarrow> retryCount s = retryCount t \<Longrightarrow>
   closeListener s = closeListener t \<Longrightarrow> timeoutArmed s = timeoutArmed t \<Longrightarrow>
   (timeoutArmed s \<longrightarrow> isOpen s = isOpen t) \<Longrightarrow>
   \<exists>fs' s' t' es. run_v2 N E evs (fs, s) = (fs', s') \<and> run_v2 N E evs (fs, t) = (fs', t') \<and>
      audioBuffer s' = audioBuffer t' \<and> trace s' = trace s @ es \<and> trace t' = trace t @ es"
proof (induction evs arbitrary: fs s t)
  case Nil
  then show ?case by (simp add: run_v2_def)
next
  case (Cons ev evs)
  obtain fs1 s1 t1 es1 where
    a: "step_v2 N E ev (fs, s) = (fs1, s1)" and b: "step_v2 N E ev (fs, t) = (fs1, t1)" and
    c: "audioBuffer s1 = audioBuffer t1" "retryCount s1 = retryCount t1"
       "closeListener s1 = closeListener t1" "timeoutArmed s1 = timeoutArmed t1"
       "timeoutArmed s1 \<longrightarrow> isOpen s1 = isOpen t1" and
    d: "trace s1 = trace s @ es1" "trace t1 = trace t @ es1"
    using step_v2_frame [OF Cons.prems, of N E ev fs] by blast
  obtain fs2 s2 t2 es2 where
    e: "run_v2 N E evs (fs1, s1) = (fs2, s2)" "run_v2 N E evs (fs1, t1) = (fs2, t2)"
       "audioBuffer s2 = audioBuffer t2" "trace s2 = trace s1 @ es2" "trace t2 = trace t1 @ es2"
    using Cons.IH [OF c, of fs1] by blast
  have "run_v2 N E (ev # evs) (fs, s) = (fs2, s2) \<and> run_v2 N E (ev # evs) (fs, t) = (fs2, t2) \<and>
      audioBuffer s2 = audioBuffer t2 \<and> trace s2 = trace s @ (es1 @ es2) \<and>
      trace t2 = trace t @ (es1 @ es2)"
    using a b d e by (simp add: run_v2_Cons)
  then show ?case by blast
qed

text \<open>
  In the second file the connection timeout is armed only while the socket has not
  opened, and the disconnect listener is registered when the socket is created.
\<close>

lemma step_v2_flags:
  assumes "timeoutArmed s \<longrightarrow> \<not> isOpen s"
  shows "(timeoutArmed (snd (step_v2 N E ev (fs, s))) \<longrightarrow> \<not> isOpen (snd (step_v2 N E ev (fs, s)))) \<and>
         closeListener (snd (step_v2 N E ev (fs, s))) = closeListener s"
proof (cases ev)
  case (WsMessage d)
  obtain fs1 c es where
    m: "\<And>s. on_message N d (fs, s) =
          (fs1, s\<lparr> audioBuffer := audioBuffer s @ c, trace := trace s @ es \<rparr>)"
    using on_message_shape [of N d fs] by blast
  show ?thesis using WsMessage assms by (simp add: m)
next
  case FlushTick
  obtain ab' es where
    f: "\<And>t. audioBuffer t = audioBuffer s \<Longrightarrow>
          flush_tick E t = t\<lparr> audioBuffer := ab', trace := trace t @ es \<rparr>"
    using flush_tick_shape [of "audioBuffer s" E] by blast
  show ?thesis using FlushTick assms by (simp add: f)
qed (use assms in \<open>simp_all add: emit_def on_req_close_def Let_def\<close>)

lemma run_v2_flags:
  "timeoutArmed s \<longrightarrow> \<not> isOpen s \<Longrightarrow>
   (timeoutArmed (snd (run_v2 N E evs (fs, s))) \<longrightarrow> \<not> isOpen (snd (run_v2 N E evs (fs, s)))) \<and>
   closeListener (snd (run_v2 N E evs (fs, s))) = closeListener s"
proof (induction evs arbitrary: fs s)
  case Nil
  then show ?case by (simp add: run_v2_def)
next
  case (Cons ev evs)
  obtain fs1 s1 where st: "step_v2 N E ev (fs, s) = (fs1, s1)"
    by (cases "step_v2 N E ev (fs, s)")
  have s1: "timeoutArmed s1 \<longrightarrow> \<not> isOpen s1" "closeListener s1 = closeListener s"
    using step_v2_flags [OF Cons.prems, of N E ev fs] st by simp_all
  show ?case using Cons.IH [OF s1(1), of fs1] s1(2) st by (simp add: run_v2_Cons)
qed

lemma connectWebSocket_flags:
  "timeoutArmed s \<longrightarrow> \<not> isOpen s \<Longrightarrow> closeListener s = (NewWebSocket \<in> set (trace s)) \<Longrightarrow>
   (timeoutArmed (connectWebSocket probes s) \<longrightarrow> \<not> isOpen (connectWebSocket probes s)) \<and>
   closeListener (connectWebSocket probes s) = (NewWebSocket \<in> set (trace (connectWebSocket probes s)))"
  by (induction probes s rule: connectWebSocket.induct)
     (auto simp add: emit_def retryOrGiveUp_def split: if_splits prod.splits bool.splits)

lemma stream_v2_flags:
  "(timeoutArmed (stream_v2 wsURL1 probes) \<longrightarrow> \<not> isOpen (stream_v2 wsURL1 probes)) \<and>
   closeListener (stream_v2 wsURL1 probes) = (NewWebSocket \<in> set (trace (stream_v2 wsURL1 probes)))"
proof (cases "wsURL1 = None \<or> wsURL1 = Some []")
  case True
  then have eq: "stream_v2 wsURL1 probes = emit [Respond 400] newSession"
    unfolding stream_v2_def by (rule if_P)
  show ?thesis
    unfolding eq by (simp add: emit_def newSession_def)
next
  case False
  then have eq: "stream_v2 wsURL1 probes = connectWebSocket probes newSession"
    unfolding stream_v2_def by (rule if_not_P)
  show ?thesis
    unfolding eq by (rule connectWebSocket_flags) (simp_all add: newSession_def)
qed

lemma stream_v1_closeListener:
  "closeListener (stream_v1 wsURL) = (NewWebSocket \<in> set (trace (stream_v1 wsURL)))"
  by (simp add: stream_v1_def emit_def newSession_def split: option.split)

text \<open>
  C9 (as amended). The disconnect calls \<^verbatim>\<open>close()\<close> on the upstream socket when the
  request has created one, and nothing when it has not (in the second file the listener
  is registered after the awaited probe, with the socket). That call is the only effect
  of the disconnect, in both files: the filter state, the accumulator and every effect
  of the handlers that run after it (the encoder calls and the writes of the flush timer
  included) are those of the run without the disconnect.
\<close>

theorem disconnect_closes_socket_only:
  "(\<exists>fs' a b es.
      run_v1 N E (pre @ post) (fs, stream_v1 wsURL) = (fs', a) \<and>
      run_v1 N E (pre @ ReqClose # post) (fs, stream_v1 wsURL) = (fs', b) \<and>
      audioBuffer a = audioBuffer b \<and>
      trace a = trace (snd (run_v1 N E pre (fs, stream_v1 wsURL))) @ es \<and>
      trace b = trace (snd (run_v1 N E pre (fs, stream_v1 wsURL))) @
                  (if NewWebSocket \<in> set (trace (stream_v1 wsURL)) then [WsClose] else []) @ es) \<and>
   (\<exists>fs' a b es.
      run_v2 N E (pre @ post) (fs, stream_v2 wsURL probes) = (fs', a) \<and>
      run_v2 N E (pre @ ReqClose # post) (fs, stream_v2 wsURL probes) = (fs', b) \<and>
      audioBuffer a = audioBuffer b \<and>
      trace a = trace (snd (run_v2 N E pre (fs, stream_v2 wsURL probes))) @ es \<and>
      trace b = trace (snd (run_v2 N E pre (fs, stream_v2 wsURL probes))) @
                  (if NewWebSocket \<in> set (trace (stream_v2 wsURL probes)) then [WsClose] else []) @ es)"
proof (intro conjI)
  obtain fs1 m where M: "run_v1 N E pre (fs, stream_v1 wsURL) = (fs1, m)"
    by (cases "run_v1 N E pre (fs, stream_v1 wsURL)")
  define m' where "m' = (if closeListener m then on_req_close m else m)"
  have cl: "closeListener m = (NewWebSocket \<in> set (trace (stream_v1 wsURL)))"
    using run_v1_closeListener [of N E pre fs "stream_v1 wsURL"] M
    by (simp add: stream_v1_closeListener)
  have ab: "audioBuffer m = audioBuffer m'" "closeListener m = closeListener m'"
    by (simp_all add: m'_def on_req_close_def emit_def)
  have tr: "trace m' = trace m @ (if NewWebSocket \<in> set (trace (stream_v1 wsURL)) then [WsClose] else [])"
    using cl by (simp add: m'_def on_req_close_def emit_def)
  obtain fs' a b es where
    r: "run_v1 N E post (fs1, m) = (fs', a)" "run_v1 N E post (fs1, m') = (fs', b)"
       "audioBuffer a = audioBuffer b" "trace a = trace m @ es" "trace b = trace m' @ es"
    using run_v1_frame [OF ab, of N E post fs1] by blast
  have "run_v1 N E (pre @ post) (fs, stream_v1 wsURL) = (fs', a) \<and>
      run_v1 N E (pre @ ReqClose # post) (fs, stream_v1 wsURL) = (fs', b) \<and>
      audioBuffer a = audioBuffer b \<and>
      trace a = trace (snd (run_v1 N E pre (fs, stream_v1 wsURL))) @ es \<and>
      trace b = trace (snd (run_v1 N E pre (fs, stream_v1 wsURL))) @
                  (if NewWebSocket \<in> set (trace (stream_v1 wsURL)) then [WsClose] else []) @ es"
    using r M tr by (simp add: run_v1_append run_v1_Cons m'_def)
  then show "\<exists>fs' a b es.
      run_v1 N E (pre @ post) (fs, stream_v1 wsURL) = (fs', a) \<and>
      run_v1 N E (pre @ ReqClose # post) (fs, stream_v1 wsURL) = (fs', b) \<and>
      audioBuffer a = audioBuffer b \<and>
      trace a = trace (snd (run_v1 N E pre (fs, stream_v1 wsURL))) @ es \<and>
      trace b = trace (snd (run_v1 N E pre (fs, stream_v1 wsURL))) @
                  (if NewWebSocket \<in> set (trace (stream_v1 wsURL)) then [WsClose] else []) @ es"
    by blast
next
  obtain fs1 m where M: "run_v2 N E pre (fs, stream_v2 wsURL probes) = (fs1, m)"
    by (cases "run_v2 N E pre (fs, stream_v2 wsURL probes)")
  define m' where "m' = (if closeListener m then on_req_close m else m)"
  have fl: "timeoutArmed m \<longrightarrow> \<not> isOpen m"
           "closeListener m = (NewWebSocket \<in> set (trace (stream_v2 wsURL probes)))"
    using run_v2_flags [of "stream_v2 wsURL probes" N E pre fs] M
          stream_v2_flags [of wsURL probes]
    by simp_all
  have ab: "audioBuffer m = audioBuffer m'" "retryCount m = retryCount m'"
      "closeListener m = closeListener m'" "timeoutArmed m = timeoutArmed m'"
      "timeoutArmed m \<longrightarrow> isOpen m = isOpen m'"
    using fl(1) by (simp_all add: m'_def on_req_close_def emit_def)
  have tr: "trace m' = trace m @ (if NewWebSocket \<in> set (trace (stream_v2 wsURL probes)) then [WsClose] else [])"
    using fl(2) by (simp add: m'_def on_req_close_def emit_def)
  obtain fs' a b es where
    r: "run_v2 N E post (fs1, m) = (fs', a)" "run_v2 N E post (fs1, m') = (fs', b)"
       "audioBuffer a = audioBuffer b" "trace a = trace m @ es" "trace b = trace m' @ es"
    using run_v2_frame [OF ab, of N E post fs1] by blast
  have "run_v2 N E (pre @ post) (fs, stream_v2 wsURL probes) = (fs', a) \<and>
      run_v2 N E (pre @ ReqClose # post) (fs, stream_v2 wsURL probes) = (fs', b) \<and>
      audioBuffer a = audioBuffer b \<and>
      trace a = trace (snd (run_v2 N E pre (fs, stream_v2 wsURL probes))) @ es \<and>
      trace b = trace (snd (run_v2 N E pre (fs, stream_v2 wsURL probes))) @
                  (if NewWebSocket \<in> set (trace (stream_v2 wsURL probes)) then [WsClose] else []) @ es"
    using r M tr by (simp add: run_v2_append run_v2_Cons m'_def)
  then show "\<exists>fs' a b es.
      run_v2 N E (pre @ post) (fs, stream_v2 wsURL probes) = (fs', a) \<and>
      run_v2 N E (pre @ ReqClose # post) (fs, stream_v2 wsURL probes) = (fs', b) \<and>
      audioBuffer a = audioBuffer b \<and>
      trace a = trace (snd (run_v2 N E pre (fs, stream_v2 wsURL probes))) @ es \<and>
      trace b = trace (snd (run_v2 N E pre (fs, stream_v2 wsURL probes))) @
                  (if NewWebSocket \<in> set (trace (stream_v2 wsURL probes)) then [WsClose] else []) @ es"
    by blast
qed

text \<open>
  C9, the claim as stated, fails in both files: the timer is not cancelled, and a tick
  after the disconnect calls the encoder on the chunk that was waiting and writes an
  event.
\<close>

theorem disconnect_then_tick_writes:
  "trace (snd (run_v1 double_ops enc_bytes
      [WsOpen, WsMessage (ArrayBuffer [0, 0]), ReqClose, FlushTick]
      (Fin 0, stream_v1 (Some ''ws://upstream/audio'')))) =
     [WriteHead200, NewWebSocket, SetInterval, WsClose, EncodeBatch [[0]], SseWrite (Mp3 ''AAD/'')] \<and>
   trace (snd (run_v2 double_ops enc_bytes
      [WsOpen, WsMessage (ArrayBuffer [0, 0]), ReqClose, FlushTick]
      (Fin 0, stream_v2 (Some ''ws://upstream/audio'') [FetchStatus 200 False]))) =
     [Fetch, NewWebSocket, SetConnectionTimeout, SetInterval, ClearConnectionTimeout, WriteHead200,
      WsClose, EncodeBatch [[0]], SseWrite (Mp3 ''AAD/'')]"
  by (simp add: run_v1_def run_v2_def stream_v1_def stream_v2_def isWsURL_def on_message_zero2
        on_req_close_def flush_tick_def flush_begin_def flush_resume_def
        convertChunksToMp3_enc_bytes emit_def newSession_def)

text \<open>
  A disconnect while the second file is still probing (here after three answers 400,
  the fourth probe pending) calls nothing: there is no socket yet and no listener.
\<close>

lemma disconnect_during_probe:
  "trace (snd (run_v2 N E [ReqClose]
      (fs, stream_v2 (Some ''ws://upstream/audio'') (replicate 3 (FetchStatus 400 False))))) =
     [Fetch, ScheduleRetry, Fetch, ScheduleRetry, Fetch, ScheduleRetry, Fetch]"
  by (simp add: run_v2_def stream_v2_def emit_def newSession_def MAX_RETRIES_def numeral_3_eq_3)

text \<open>
  C10. A frame of odd length makes the decoder throw. Whenever the decoder throws, the
  handler writes one error event and changes nothing else: the filter state, the
  accumulator and the socket are as before, no timer is touched. A frame that arrives
  next and decodes is filtered with the filter state of before the failure and pushed
  onto the accumulator of before the failure. The events that follow are handled, in
  both files, as if the failing frame had not arrived: same filter state, same
  accumulator, and the same effects after the one error event. (The filter itself has
  no statement that throws.) A batch on which the encoder throws is answered the same
  way: one error event, and the session is otherwise as before.
\<close>

theorem frame_error_contained:
  "(odd (length buf) \<longrightarrow> convertPCMToInt16 buf = Inl RangeError) \<and>
   (convertPCMToInt16 buf = Inl e \<longrightarrow>
      on_message N (ArrayBuffer buf) (fs, s) = (fs, emit [SseWrite AudioProcessingError] s) \<and>
      (\<forall>next chunk. convertPCMToInt16 next = Inr chunk \<longrightarrow>
         on_message N (ArrayBuffer next) (on_message N (ArrayBuffer buf) (fs, s)) =
           (case applyLowPassFilter N chunk (n_lit N sampleRate) (n_lit N lowPassCutoff) fs of
              (filtered, lastValue) \<Rightarrow>
                (lastValue,
                 (emit [SseWrite AudioProcessingError] s)\<lparr> audioBuffer := audioBuffer s @ [filtered] \<rparr>))) \<and>
      (\<exists>fs' a b es.
         run_v1 N E evs (fs, s) = (fs', a) \<and>
         run_v1 N E (WsMessage (ArrayBuffer buf) # evs) (fs, s) = (fs', b) \<and>
         audioBuffer a = audioBuffer b \<and>
         trace a = trace s @ es \<and>
         trace b = trace s @ SseWrite AudioProcessingError # es) \<and>
      (\<exists>fs' a b es.
         run_v2 N E evs (fs, s) = (fs', a) \<and>
         run_v2 N E (WsMessage (ArrayBuffer buf) # evs) (fs, s) = (fs', b) \<and>
         audioBuffer a = audioBuffer b \<and>
         trace a = trace s @ es \<and>
         trace b = trace s @ SseWrite AudioProcessingError # es)) \<and>
   (convertChunksToMp3 E (audioBuffer s) = Inl e' \<longrightarrow>
      flush_tick E s = emit [EncodeBatch (audioBuffer s), SseWrite Mp3ConversionError] s)"
proof (intro conjI impI allI)
  assume "odd (length buf)"
  then show "convertPCMToInt16 buf = Inl RangeError" by (rule convertPCMToInt16_odd)
next
  assume "convertPCMToInt16 buf = Inl e"
  then show "on_message N (ArrayBuffer buf) (fs, s) = (fs, emit [SseWrite AudioProcessingError] s)"
    by (simp add: on_message_def)
next
  fix "next" chunk
  assume thrown: "convertPCMToInt16 buf = Inl e" and ok: "convertPCMToInt16 next = Inr chunk"
  show "on_message N (ArrayBuffer next) (on_message N (ArrayBuffer buf) (fs, s)) =
           (case applyLowPassFilter N chunk (n_lit N sampleRate) (n_lit N lowPassCutoff) fs of
              (filtered, lastValue) \<Rightarrow>
                (lastValue,
                 (emit [SseWrite AudioProcessingError] s)\<lparr> audioBuffer := audioBuffer s @ [filtered] \<rparr>))"
    using thrown ok by (simp add: on_message_def emit_def split: prod.split)
next
  assume thrown: "convertPCMToInt16 buf = Inl e"
  let ?t = "emit [SseWrite AudioProcessingError] s"
  have ab: "audioBuffer s = audioBuffer ?t" "closeListener s = closeListener ?t"
    by (simp_all add: emit_def)
  obtain fs' a b es where
    r: "run_v1 N E evs (fs, s) = (fs', a)" "run_v1 N E evs (fs, ?t) = (fs', b)"
       "audioBuffer a = audioBuffer b" "trace a = trace s @ es" "trace b = trace ?t @ es"
    using run_v1_frame [OF ab, of N E evs fs] by blast
  have "run_v1 N E evs (fs, s) = (fs', a) \<and>
         run_v1 N E (WsMessage (ArrayBuffer buf) # evs) (fs, s) = (fs', b) \<and>
         audioBuffer a = audioBuffer b \<and>
         trace a = trace s @ es \<and>
         trace b = trace s @ SseWrite AudioProcessingError # es"
    using r thrown by (simp add: run_v1_Cons on_message_def emit_def)
  then show "\<exists>fs' a b es.
         run_v1 N E evs (fs, s) = (fs', a) \<and>
         run_v1 N E (WsMessage (ArrayBuffer buf) # evs) (fs, s) = (fs', b) \<and>
         audioBuffer a = audioBuffer b \<and>
         trace a = trace s @ es \<and>
         trace b = trace s @ SseWrite AudioProcessingError # es" by blast
next
  assume thrown: "convertPCMToInt16 buf = Inl e"
  let ?t = "emit [SseWrite AudioProcessingError] s"
  have ab: "audioBuffer s = audioBuffer ?t" "retryCount s = retryCount ?t"
      "closeListener s = closeListener ?t" "timeoutArmed s = timeoutArmed ?t"
      "timeoutArmed s \<longrightarrow> isOpen s = isOpen ?t"
    by (simp_all add: emit_def)
  obtain fs' a b es where
    r: "run_v2 N E evs (fs, s) = (fs', a)" "run_v2 N E evs (fs, ?t) = (fs', b)"
       "audioBuffer a = audioBuffer b" "trace a = trace s @ es" "trace b = trace ?t @ es"
    using run_v2_frame [OF ab, of N E evs fs] by blast
  have "run_v2 N E evs (fs, s) = (fs', a) \<and>
         run_v2 N E (WsMessage (ArrayBuffer buf) # evs) (fs, s) = (fs', b) \<and>
         audioBuffer a = audioBuffer b \<and>
         trace a = trace s @ es \<and>
         trace b = trace s @ SseWrite AudioProcessingError # es"
    using r thrown by (simp add: run_v2_Cons on_message_def emit_def)
  then show "\<exists>fs' a b es.
         run_v2 N E evs (fs, s) = (fs', a) \<and>
         run_v2 N E (WsMessage (ArrayBuffer buf) # evs) (fs, s) = (fs', b) \<and>
         audioBuffer a = audioBuffer b \<and>
         trace a = trace s @ es \<and>
         trace b = trace s @ SseWrite AudioProcessingError # es" by blast
next
  assume thrown: "convertChunksToMp3 E (audioBuffer s) = Inl e'"
  then have "audioBuffer s \<noteq> []" by (auto simp add: convertChunksToMp3_Nil)
  with thrown show "flush_tick E s = emit [EncodeBatch (audioBuffer s), SseWrite Mp3ConversionError] s"
    by (simp add: flush_tick_def flush_begin_def flush_resume_def emit_def)
qed

theorem frame_error_contained_witness:
  "odd (length [1 :: byte]) \<and> convertPCMToInt16 [1] = Inl RangeError \<and>
   on_message double_ops (ArrayBuffer [1]) (Fin 0, newSession) =
     (Fin 0, emit [SseWrite AudioProcessingError] newSession) \<and>
   convertPCMToInt16 [0, 0] = Inr [0] \<and>
   on_message double_ops (ArrayBuffer [0, 0])
       (on_message double_ops (ArrayBuffer [1]) (Fin 0, newSession)) =
     (Fin 0, (emit [SseWrite AudioProcessingError] newSession)
               \<lparr> audioBuffer := audioBuffer newSession @ [[0]] \<rparr>) \<and>
   (\<exists>fs' a b es.
      run_v1 double_ops enc_bytes [WsMessage (ArrayBuffer [0, 0]), FlushTick] (Fin 0, newSession) = (fs', a) \<and>
      run_v1 double_ops enc_bytes
        (WsMessage (ArrayBuffer [1]) # [WsMessage (ArrayBuffer [0, 0]), FlushTick]) (Fin 0, newSession) = (fs', b) \<and>
      audioBuffer a = audioBuffer b \<and>
      trace a = trace newSession @ es \<and>
      trace b = trace newSession @ SseWrite AudioProcessingError # es) \<and>
   (\<exists>fs' a b es.
      run_v2 double_ops enc_bytes [WsMessage (ArrayBuffer [0, 0]), FlushTick] (Fin 0, newSession) = (fs', a) \<and>
      run_v2 double_ops enc_bytes
        (WsMessage (ArrayBuffer [1]) # [WsMessage (ArrayBuffer [0, 0]), FlushTick]) (Fin 0, newSession) = (fs', b) \<and>
      audioBuffer a = audioBuffer b \<and>
      trace a = trace newSession @ es \<and>
      trace b = trace newSession @ SseWrite AudioProcessingError # es) \<and>
   convertChunksToMp3 enc_throws (audioBuffer (newSession\<lparr> audioBuffer := [[0]] \<rparr>)) = Inl LibraryError \<and>
   flush_tick enc_throws (newSession\<lparr> audioBuffer := [[0]] \<rparr>) =
     emit [EncodeBatch (audioBuffer (newSession\<lparr> audioBuffer := [[0]] \<rparr>)),
           SseWrite Mp3ConversionError] (newSession\<lparr> audioBuffer := [[0]] \<rparr>)"
proof -
  have thrown: "convertChunksToMp3 enc_throws (audioBuffer (newSession\<lparr> audioBuffer := [[0]] \<rparr>)) =
      Inl LibraryError"
    by (simp add: convertChunksToMp3_enc_throws)
  have odd1: "odd (length [1 :: byte])" by simp
  have flt: "applyLowPassFilter double_ops [0] (n_lit double_ops sampleRate)
      (n_lit double_ops lowPassCutoff) (Fin 0) = ([0], Fin 0)"
    by (simp only: sampleRate_double lowPassCutoff_double filter_zero)
  note frame = frame_error_contained [of "[1]" RangeError double_ops "Fin 0" newSession enc_bytes
          "[WsMessage (ArrayBuffer [0, 0]), FlushTick]"]
  note contained = frame [THEN conjunct2, THEN conjunct1, THEN mp, OF convertPCMToInt16_one_byte]
  note later = contained [THEN conjunct2, THEN conjunct1, THEN spec, THEN spec, THEN mp,
          OF convertPCMToInt16_zero2, unfolded flt prod.case]
  note batch = frame_error_contained
          [of "[1]" RangeError double_ops "Fin 0" "newSession\<lparr> audioBuffer := [[0]] \<rparr>" enc_throws "[]"
              LibraryError,
           THEN conjunct2, THEN conjunct2, THEN mp, OF thrown]
  show ?thesis
    by (intro conjI odd1 convertPCMToInt16_one_byte contained [THEN conjunct1]
          convertPCMToInt16_zero2 later
          contained [THEN conjunct2, THEN conjunct2, THEN conjunct1]
          contained [THEN conjunct2, THEN conjunct2, THEN conjunct2] thrown batch)
qed

lemma frame_error_example:
  "trace (snd (run_v1 double_ops enc_bytes
      [WsMessage (ArrayBuffer [1]), WsMessage (ArrayBuffer [0, 0]), FlushTick] (Fin 0, newSession))) =
     [SseWrite AudioProcessingError, EncodeBatch [[0]], SseWrite (Mp3 ''AAD/'')]"
  by (simp add: run_v1_def on_message_zero2 on_message_one_byte flush_tick_def
        flush_begin_def flush_resume_def convertChunksToMp3_enc_bytes emit_def newSession_def)

subsection \<open>The flush tick\<close>

lemma base64_nonempty: "bs \<noteq> [] \<Longrightarrow> base64 bs \<noteq> []"
  by (cases bs rule: base64.cases) simp_all

lemma encodeBlocks_contract:
  "encoder_contract E \<Longrightarrow>
   \<exists>mp3Encoder' mp3Data'. encodeBlocks E pcmData i mp3Encoder mp3Data = Inr (mp3Encoder', mp3Data')"
proof (induction E pcmData i mp3Encoder mp3Data rule: encodeBlocks.induct)
  case (1 E pcmData i mp3Encoder mp3Data)
  show ?case
  proof (cases "i < length pcmData")
    case False
    then show ?thesis by (subst encodeBlocks.simps) simp
  next
    case True
    obtain enc1 mp3buf where
      b: "enc_encodeBuffer E mp3Encoder (take 1152 (drop i pcmData)) = Inr (enc1, mp3buf)"
      using "1.prems" unfolding encoder_contract_def by blast
    have "\<exists>mp3Encoder' mp3Data'.
        encodeBlocks E pcmData (i + 1152) enc1
          (if 0 < length mp3buf then mp3Data @ [mp3buf] else mp3Data) = Inr (mp3Encoder', mp3Data')"
      using "1.IH" [OF True b refl "1.prems"] .
    then show ?thesis using True b by (subst encodeBlocks.simps) simp
  qed
qed

lemma convertChunksToMp3_contract:
  assumes "encoder_contract E" "pcmChunks \<noteq> []"
  shows "\<exists>payload. payload \<noteq> [] \<and> convertChunksToMp3 E pcmChunks = Inr (Some payload)"
proof -
  obtain enc1 mp3Data where
    b: "encodeBlocks E (concat pcmChunks) 0 (enc_new E) [] = Inr (enc1, mp3Data)"
    using encodeBlocks_contract [OF assms(1)] by blast
  obtain mp3Final where f: "enc_flush E enc1 = Inr mp3Final" "mp3Final \<noteq> []"
    using assms(1) unfolding encoder_contract_def by blast
  have "base64 (concat (mp3Data @ [mp3Final])) \<noteq> []"
    using f(2) by (intro base64_nonempty) simp
  then show ?thesis
    using assms(2) b f by (simp add: convertChunksToMp3_def)
qed

text \<open>
  C6. A tick on an empty accumulator changes nothing: no call of the encoder, no
  event. With an encoder that keeps its contract, a tick on a non-empty accumulator
  hands the batch to the encoder once, writes exactly one event, an mp3 event whose
  text is the non-empty base64 text of the conversion, and leaves the accumulator empty.
\<close>

theorem flush_tick_cases:
  "encoder_contract E \<Longrightarrow>
   (audioBuffer s = [] \<longrightarrow> flush_tick E s = s) \<and>
   (audioBuffer s \<noteq> [] \<longrightarrow>
      (\<exists>payload. payload \<noteq> [] \<and>
         convertChunksToMp3 E (audioBuffer s) = Inr (Some payload) \<and>
         flush_tick E s =
           emit [EncodeBatch (audioBuffer s), SseWrite (Mp3 payload)] (s\<lparr> audioBuffer := [] \<rparr>)))"
proof (intro conjI impI)
  assume "audioBuffer s = []"
  then show "flush_tick E s = s" by (simp add: flush_tick_def flush_begin_def)
next
  assume c: "encoder_contract E" and ne: "audioBuffer s \<noteq> []"
  obtain payload where
    p: "payload \<noteq> []" "convertChunksToMp3 E (audioBuffer s) = Inr (Some payload)"
    using convertChunksToMp3_contract [OF c ne] by blast
  have "flush_tick E s =
      emit [EncodeBatch (audioBuffer s), SseWrite (Mp3 payload)] (s\<lparr> audioBuffer := [] \<rparr>)"
    using ne p by (simp add: flush_tick_def flush_begin_def flush_resume_def emit_def)
  with p show "\<exists>payload. payload \<noteq> [] \<and>
         convertChunksToMp3 E (audioBuffer s) = Inr (Some payload) \<and>
         flush_tick E s =
           emit [EncodeBatch (audioBuffer s), SseWrite (Mp3 payload)] (s\<lparr> audioBuffer := [] \<rparr>)"
    by blast
qed

lemma encoder_contract_enc_bytes: "encoder_contract enc_bytes"
  by (simp add: encoder_contract_def enc_bytes_def)

theorem flush_tick_cases_witness:
  "encoder_contract enc_bytes \<and>
   audioBuffer newSession = [] \<and> flush_tick enc_bytes newSession = newSession \<and>
   audioBuffer (newSession\<lparr> audioBuffer := [[0]] \<rparr>) \<noteq> [] \<and>
   flush_tick enc_bytes (newSession\<lparr> audioBuffer := [[0]] \<rparr>) =
     emit [EncodeBatch [[0]], SseWrite (Mp3 ''AAD/'')] newSession"
  using flush_tick_cases [OF encoder_contract_enc_bytes, of newSession]
        flush_tick_cases [OF encoder_contract_enc_bytes, of "newSession\<lparr> audioBuffer := [[0]] \<rparr>"]
        convertChunksToMp3_enc_bytes encoder_contract_enc_bytes
  by (simp add: newSession_def emit_def)

text \<open>
  Without the contract: when the encoder throws, the tick writes one error event and
  keeps the accumulator (above); when it emits no byte at all, the tick writes nothing.
\<close>

lemma flush_tick_empty_text:
  "audioBuffer s \<noteq> [] \<Longrightarrow> convertChunksToMp3 E (audioBuffer s) = Inr (Some []) \<Longrightarrow>
   flush_tick E s = emit [EncodeBatch (audioBuffer s)] (s\<lparr> audioBuffer := [] \<rparr>)"
  by (simp add: flush_tick_def flush_begin_def flush_resume_def emit_def)

subsection \<open>Retries and headers\<close>

text \<open>
  C3. With a probe that answers 400 every time, the request makes 30 retries, and the
  31st answer, the budget being used up, is not turned into a failure response: the
  call goes on to open the socket. A probe that is rejected every time does end in
  the 503 response after the same 30 retries.
\<close>

theorem retry_budget_falls_through:
  "trace (stream_v2 (Some ''ws://upstream/audio'') (replicate 31 (FetchStatus 400 False))) =
     concat (replicate 30 [Fetch, ScheduleRetry]) @
       [Fetch, NewWebSocket, SetConnectionTimeout, SetInterval] \<and>
   retryCount (stream_v2 (Some ''ws://upstream/audio'') (replicate 31 (FetchStatus 400 False))) = 30"
  by code_simp

lemma retry_budget_rejected:
  "trace (stream_v2 (Some ''ws://upstream/audio'') (replicate 31 FetchRejected)) =
     concat (replicate 30 [Fetch, ScheduleRetry]) @ [Fetch, Respond 503]"
  by code_simp

text \<open>
  C8. In the first file the request handler writes the headers before it creates the
  socket, so before any event of the socket. In the second file they are written by
  the handler of the open event only (\<open>part_000_headers_after_open\<close> below).
\<close>

theorem index_ts_headers_before_open:
  "trace (stream_v1 (Some ''ws://upstream/audio'')) = [WriteHead200, NewWebSocket, SetInterval]"
  by code_simp

text \<open>
  With an address the constructor refuses, it throws: the headers are written all the
  same, and nothing else happens.
\<close>

lemma index_ts_headers_without_socket:
  "trace (stream_v1 (Some ''upstream/audio'')) = [WriteHead200]"
  by code_simp

lemma connectWebSocket_no_header:
  "WriteHead200 \<notin> set (trace s) \<Longrightarrow> WriteHead200 \<notin> set (trace (connectWebSocket probes s))"
  by (induction probes s rule: connectWebSocket.induct)
     (auto simp add: emit_def retryOrGiveUp_def split: if_splits prod.splits bool.splits)

lemma stream_v2_no_header: "WriteHead200 \<notin> set (trace (stream_v2 wsURL1 probes))"
  by (simp add: stream_v2_def connectWebSocket_no_header emit_def newSession_def)

lemma on_message_no_header:
  "WriteHead200 \<notin> set (trace s) \<Longrightarrow> WriteHead200 \<notin> set (trace (snd (on_message N d (fs, s))))"
  by (simp add: on_message_def emit_def split: ws_data.split sum.split prod.split)

lemma flush_tick_no_header:
  "WriteHead200 \<notin> set (trace s) \<Longrightarrow> WriteHead200 \<notin> set (trace (flush_tick E s))"
  by (simp add: flush_tick_def flush_begin_def flush_resume_def emit_def
        split: sum.split option.split)

lemma step_v2_no_header:
  "ev \<noteq> WsOpen \<Longrightarrow> WriteHead200 \<notin> set (trace s) \<Longrightarrow>
   WriteHead200 \<notin> set (trace (snd (step_v2 N E ev (fs, s))))"
  by (cases ev)
     (simp_all add: on_message_no_header flush_tick_no_header on_req_close_def emit_def Let_def)

lemma run_v2_no_header:
  "WsOpen \<notin> set evs \<Longrightarrow> WriteHead200 \<notin> set (trace s) \<Longrightarrow>
   WriteHead200 \<notin> set (trace (snd (run_v2 N E evs (fs, s))))"
proof (induction evs arbitrary: fs s)
  case Nil
  then show ?case by (simp add: run_v2_def)
next
  case (Cons ev evs)
  obtain fs1 s1 where st: "step_v2 N E ev (fs, s) = (fs1, s1)"
    by (cases "step_v2 N E ev (fs, s)")
  have "WriteHead200 \<notin> set (trace s1)"
    using step_v2_no_header [of ev s N E fs] Cons.prems st by auto
  then have "WriteHead200 \<notin> set (trace (snd (run_v2 N E evs (fs1, s1))))"
    using Cons.IH Cons.prems by simp
  then show ?case using st by (simp add: run_v2_def)
qed

lemma part_000_headers_after_open:
  "WsOpen \<notin> set evs \<Longrightarrow>
   WriteHead200 \<notin> set (trace (snd (run_v2 N E evs (fs, stream_v2 wsURL1 probes))))"
  by (rule run_v2_no_header) (simp_all add: stream_v2_no_header)

lemma retryCount_bounded:
  "retryCount s \<le> MAX_RETRIES \<Longrightarrow> retryCount (connectWebSocket probes s) \<le> MAX_RETRIES"
  by (induction probes s rule: connectWebSocket.induct)
     (auto simp add: emit_def retryOrGiveUp_def split: if_splits prod.splits bool.splits)

section \<open>The range of the filter's output\<close>

lemma applyLowPassFilter_loop_outputs:
  "fst (applyLowPassFilter_loop N alpha data s) =
     map (\<lambda>y. n_toInt16 N (n_round N y)) (lowPassOutputs N alpha data s)"
  by (induction data arbitrary: s) (simp_all add: Let_def case_prod_beta)

lemma sint_int16_range: "- 32768 \<le> sint v \<and> sint v \<le> 32767" for v :: int16
  using sint_ge [of v] sint_lt [of v] by simp

lemma sint_word_of_int_wraps: "sint (word_of_int k :: int16) = wrapInt16 k"
  by (simp add: wrapInt16_def int_word_sint)

text \<open>
  What the store into the \<^verbatim>\<open>Int16Array\<close> makes of \<^verbatim>\<open>Math.round(y)\<close>: the rounded
  value reduced modulo \<open>2 ^ 16\<close>.
\<close>

lemma store_wraps: "sint (toInt16 (math_round y)) = wrapInt16 (roundedInt y)"
proof (cases y)
  case (Fin x)
  show ?thesis
  proof (cases "- (1 / 2) \<le> x \<and> x < 0")
    case True
    then have "\<lfloor>x + 1 / 2\<rfloor> = 0" by (simp add: floor_eq_iff)
    with True Fin show ?thesis by (simp add: wrapInt16_def)
  next
    case False
    with Fin show ?thesis by (simp add: sint_word_of_int_wraps)
  qed
qed (simp_all add: wrapInt16_def)

lemma wrapInt16_id: "(wrapInt16 k = k) = (- 32768 \<le> k \<and> k \<le> 32767)"
proof
  assume "wrapInt16 k = k"
  then have "(k + 32768) mod 65536 = k + 32768" by (simp add: wrapInt16_def)
  moreover have "0 \<le> (k + 32768) mod 65536" "(k + 32768) mod 65536 < 65536" by simp_all
  ultimately show "- 32768 \<le> k \<and> k \<le> 32767" by linarith
next
  assume "- 32768 \<le> k \<and> k \<le> 32767"
  then have "(k + 32768) mod 65536 = k + 32768" by (intro mod_pos_pos_trivial) simp_all
  then show "wrapInt16 k = k" by (simp add: wrapInt16_def)
qed

lemma clampInt16_id: "(clampInt16 k = k) = (- 32768 \<le> k \<and> k \<le> 32767)"
  by (auto simp add: clampInt16_def)

text \<open>
  C4 (as amended). In the arithmetic of the program, for every input and every carried
  state, each output sample is the rounded value of \<open>alpha * x[n] + (1 - alpha) * y[n - 1]\<close>
  reduced modulo \<open>2 ^ 16\<close> into the signed 16-bit range, which is what the store into the
  \<^verbatim>\<open>Int16Array\<close> does; so every sample lies in \<open>[-32768, 32767]\<close>. Nothing clamps.
  Reducing and clamping leave the same rounded values as they are, those of the range:
  a rounded value in the range is stored as it is, one outside it is stored as another
  number.
\<close>

theorem lowpass_output_wraps:
  "map sint (fst (applyLowPassFilter double_ops data rate cutoff s)) =
     map (\<lambda>y. wrapInt16 (roundedInt y))
       (lowPassOutputs double_ops (lowPassAlpha double_ops rate cutoff) data s) \<and>
   (\<forall>v \<in> set (fst (applyLowPassFilter double_ops data rate cutoff s)).
      - 32768 \<le> sint v \<and> sint v \<le> 32767) \<and>
   (wrapInt16 k = k) = (- 32768 \<le> k \<and> k \<le> 32767) \<and>
   (clampInt16 k = k) = (- 32768 \<le> k \<and> k \<le> 32767)"
proof (intro conjI ballI)
  have "map sint (fst (applyLowPassFilter double_ops data rate cutoff s)) =
        map (\<lambda>y. sint (toInt16 (math_round y)))
          (lowPassOutputs double_ops (lowPassAlpha double_ops rate cutoff) data s)"
    by (simp add: applyLowPassFilter_def applyLowPassFilter_loop_outputs double_ops_def comp_def)
  then show "map sint (fst (applyLowPassFilter double_ops data rate cutoff s)) =
     map (\<lambda>y. wrapInt16 (roundedInt y))
       (lowPassOutputs double_ops (lowPassAlpha double_ops rate cutoff) data s)"
    by (simp only: store_wraps)
next
  fix v :: int16
  show "- 32768 \<le> sint v" using sint_int16_range [of v] by simp
next
  fix v :: int16
  show "sint v \<le> 32767" using sint_int16_range [of v] by simp
next
  show "(wrapInt16 k = k) = (- 32768 \<le> k \<and> k \<le> 32767)" by (rule wrapInt16_id)
next
  show "(clampInt16 k = k) = (- 32768 \<le> k \<and> k \<le> 32767)" by (rule clampInt16_id)
qed

theorem lowpass_output_wraps_witness:
  "fst (applyLowPassFilter double_ops [1000] (Fin 32000) (Fin 1000) (Fin 0)) = [164] \<and>
   map sint (fst (applyLowPassFilter double_ops [1000] (Fin 32000) (Fin 1000) (Fin 0))) =
     map (\<lambda>y. wrapInt16 (roundedInt y))
       (lowPassOutputs double_ops (lowPassAlpha double_ops (Fin 32000) (Fin 1000)) [1000] (Fin 0)) \<and>
   164 \<in> set (fst (applyLowPassFilter double_ops [1000] (Fin 32000) (Fin 1000) (Fin 0))) \<and>
   - 32768 \<le> sint (164 :: int16) \<and> sint (164 :: int16) \<le> 32767 \<and>
   (wrapInt16 164 = 164) = (- 32768 \<le> (164 :: int) \<and> (164 :: int) \<le> 32767) \<and>
   (clampInt16 164 = 164) = (- 32768 \<le> (164 :: int) \<and> (164 :: int) \<le> 32767)"
proof -
  have one: "fst (applyLowPassFilter double_ops [1000] (Fin 32000) (Fin 1000) (Fin 0)) = [164]"
    by (simp add: filter_1000)
  have mem: "164 \<in> set (fst (applyLowPassFilter double_ops [1000] (Fin 32000) (Fin 1000) (Fin 0)))"
    by (simp add: one)
  note t = lowpass_output_wraps [of "[1000]" "Fin 32000" "Fin 1000" "Fin 0" 164]
  note range = t [THEN conjunct2, THEN conjunct1, THEN bspec, OF mem]
  show ?thesis
    by (intro conjI one mem t [THEN conjunct1] range [THEN conjunct1] range [THEN conjunct2]
          t [THEN conjunct2, THEN conjunct2, THEN conjunct1]
          t [THEN conjunct2, THEN conjunct2, THEN conjunct2])
qed

text \<open>
  C4, the claim as stated, fails: with the sample 0 and the carry 50000 the rounded
  value is 41794, which clamped is 32767; the sample the filter returns is -23742.
\<close>

lemma outputs_50000:
  "lowPassOutputs double_ops (Fin (2956593165491585 / 18014398509481984)) [0] (Fin 50000) =
     [Fin (5744096887203369 / 137438953472)]"
  by code_simp

lemma rounded_50000: "map roundedInt [Fin (5744096887203369 / 137438953472)] = [41794]"
  by code_simp

theorem lowpass_wraps_out_of_range:
  "map sint (fst (applyLowPassFilter double_ops [0] (Fin 32000) (Fin 1000) (Fin 50000))) = [- 23742] \<and>
   map roundedInt
     (lowPassOutputs double_ops (lowPassAlpha double_ops (Fin 32000) (Fin 1000)) [0] (Fin 50000)) =
     [41794] \<and>
   clampInt16 41794 = 32767"
proof (intro conjI)
  show "map sint (fst (applyLowPassFilter double_ops [0] (Fin 32000) (Fin 1000) (Fin 50000))) =
      [- 23742]"
    by (simp add: filter_50000)
next
  show "map roundedInt
     (lowPassOutputs double_ops (lowPassAlpha double_ops (Fin 32000) (Fin 1000)) [0] (Fin 50000)) =
     [41794]"
    by (simp only: lowPassAlpha_double outputs_50000 rounded_50000)
next
  show "clampInt16 41794 = 32767" by (simp add: clampInt16_def)
qed

section \<open>Sessions of one process\<close>

lemma dispatch_other_session:
  "sid' \<noteq> sid \<Longrightarrow> sessions (dispatch N E (sid, ev) p) sid' = sessions p sid'"
  by (simp add: dispatch_def split: prod.split)

text \<open>
  C5 (as amended). An event of one session leaves every other session as it was,
  its accumulator included. What a frame does depends on the frame and on the carried
  filter state the process holds at that moment, and on nothing else: the chunk
  appended to the session's accumulator, the event written and the carry left behind
  are the same in every process that holds the same carry.
\<close>

theorem sessions_share_the_carry_only:
  "(sid' \<noteq> sid \<longrightarrow> sessions (dispatch N E (sid, ev) p) sid' = sessions p sid') \<and>
   (\<exists>carry' chunks es. \<forall>q. filterState q = carry \<longrightarrow>
      filterState (dispatch N E (sid, WsMessage d) q) = carry' \<and>
      audioBuffer (sessions (dispatch N E (sid, WsMessage d) q) sid) =
        audioBuffer (sessions q sid) @ chunks \<and>
      trace (sessions (dispatch N E (sid, WsMessage d) q) sid) = trace (sessions q sid) @ es)"
proof (intro conjI impI)
  assume "sid' \<noteq> sid"
  then show "sessions (dispatch N E (sid, ev) p) sid' = sessions p sid'"
    by (rule dispatch_other_session)
next
  obtain carry' chunks es where
    m: "\<And>s. on_message N d (carry, s) =
          (carry', s\<lparr> audioBuffer := audioBuffer s @ chunks, trace := trace s @ es \<rparr>)"
    using on_message_shape [of N d carry] by blast
  have "\<forall>q. filterState q = carry \<longrightarrow>
      filterState (dispatch N E (sid, WsMessage d) q) = carry' \<and>
      audioBuffer (sessions (dispatch N E (sid, WsMessage d) q) sid) =
        audioBuffer (sessions q sid) @ chunks \<and>
      trace (sessions (dispatch N E (sid, WsMessage d) q) sid) = trace (sessions q sid) @ es"
    by (simp add: dispatch_def m)
  then show "\<exists>carry' chunks es. \<forall>q. filterState q = carry \<longrightarrow>
      filterState (dispatch N E (sid, WsMessage d) q) = carry' \<and>
      audioBuffer (sessions (dispatch N E (sid, WsMessage d) q) sid) =
        audioBuffer (sessions q sid) @ chunks \<and>
      trace (sessions (dispatch N E (sid, WsMessage d) q) sid) = trace (sessions q sid) @ es"
    by blast
qed

theorem sessions_share_the_carry_only_witness:
  "(1 :: nat) \<noteq> 0 \<and>
   sessions (dispatch double_ops enc_bytes (0, WsMessage (ArrayBuffer [0, 0])) (newProcess double_ops)) 1 =
     sessions (newProcess double_ops) 1 \<and>
   filterState (newProcess double_ops) = Fin 0 \<and>
   (\<exists>carry' chunks es.
      filterState (dispatch double_ops enc_bytes (0, WsMessage (ArrayBuffer [0, 0]))
        (newProcess double_ops)) = carry' \<and>
      audioBuffer (sessions (dispatch double_ops enc_bytes (0, WsMessage (ArrayBuffer [0, 0]))
        (newProcess double_ops)) 0) = audioBuffer (sessions (newProcess double_ops) 0) @ chunks \<and>
      trace (sessions (dispatch double_ops enc_bytes (0, WsMessage (ArrayBuffer [0, 0]))
        (newProcess double_ops)) 0) = trace (sessions (newProcess double_ops) 0) @ es)"
proof -
  have ne: "(1 :: nat) \<noteq> 0" by simp
  have z: "filterState (newProcess double_ops) = Fin 0"
    by (simp add: newProcess_def zero_double)
  note t = sessions_share_the_carry_only
             [of 1 0 double_ops enc_bytes "WsMessage (ArrayBuffer [0, 0])" "newProcess double_ops"
                 "Fin 0" "ArrayBuffer [0, 0]"]
  note other = t [THEN conjunct1, THEN mp, OF ne]
  from t [THEN conjunct2] obtain carry' chunks es where
    "\<forall>q. filterState q = Fin 0 \<longrightarrow>
      filterState (dispatch double_ops enc_bytes (0, WsMessage (ArrayBuffer [0, 0])) q) = carry' \<and>
      audioBuffer (sessions (dispatch double_ops enc_bytes (0, WsMessage (ArrayBuffer [0, 0])) q) 0) =
        audioBuffer (sessions q 0) @ chunks \<and>
      trace (sessions (dispatch double_ops enc_bytes (0, WsMessage (ArrayBuffer [0, 0])) q) 0) =
        trace (sessions q 0) @ es"
    by (elim exE)
  then have same: "filterState (dispatch double_ops enc_bytes (0, WsMessage (ArrayBuffer [0, 0]))
        (newProcess double_ops)) = carry' \<and>
      audioBuffer (sessions (dispatch double_ops enc_bytes (0, WsMessage (ArrayBuffer [0, 0]))
        (newProcess double_ops)) 0) = audioBuffer (sessions (newProcess double_ops) 0) @ chunks \<and>
      trace (sessions (dispatch double_ops enc_bytes (0, WsMessage (ArrayBuffer [0, 0]))
        (newProcess double_ops)) 0) = trace (sessions (newProcess double_ops) 0) @ es"
    using z by (elim allE [of _ "newProcess double_ops"] impE) assumption+
  show ?thesis
    by (intro conjI ne other z exI [of _ carry'] exI [of _ chunks] exI [of _ es]
          same [THEN conjunct1] same [THEN conjunct2, THEN conjunct1]
          same [THEN conjunct2, THEN conjunct2])
qed

text \<open>
  C5, the claim as stated, fails: the filter state is one variable for all sessions.
  Session 1 receives a frame of one zero sample: alone, its chunk is \<open>[0]\<close>; after
  session 0 has received the sample 1000, its chunk is \<open>[137]\<close>.
\<close>

theorem filter_state_crosses_sessions:
  "audioBuffer (sessions (serve double_ops enc_bytes
      [(1, WsMessage (ArrayBuffer [0, 0]))] (newProcess double_ops)) 1) = [[0]] \<and>
   audioBuffer (sessions (serve double_ops enc_bytes
      [(0, WsMessage (ArrayBuffer [0xE8, 0x03])), (1, WsMessage (ArrayBuffer [0, 0]))]
      (newProcess double_ops)) 1) = [[137]]"
  by (simp add: serve_def dispatch_def newProcess_def zero_double on_message_zero2 on_message_1000
        on_message_after_1000 newSession_def)

end
